theory Spec2Isabelle
  imports Main "HOL-Library.Word"
begin

section \<open>Data model\<close>

text \<open>
  The program \<^verbatim>\<open>specific_grep.cpp\<close> walks a directory tree, splits the list of regular
  files among \<open>thread_count\<close> asynchronous tasks, and lets every task scan its files line
  by line for a literal search string.

  A C++ \<^verbatim>\<open>int\<close> is a 32-bit word, read as a signed number by \<open>sint\<close>; addition and
  multiplication wrap, as they do on the machine, and a \<^verbatim>\<open>std::size_t\<close> is narrowed to
  \<^verbatim>\<open>int\<close> by dropping its upper bits. A \<^verbatim>\<open>std::size_t\<close> is a 64-bit word. A
  \<^verbatim>\<open>std::string\<close> and a \<^verbatim>\<open>fs::path\<close> are byte strings. \<^verbatim>\<open>std::thread::id\<close> is opaque; a
  natural number stands for it. Running out of memory or of threads is not modelled.
\<close>

type_synonym c_int = "32 word"
type_synonym size_t = "64 word"
type_synonym path = string
type_synonym thread_id = nat

text \<open>
  \<^verbatim>\<open>std::tuple<std::thread::id, std::string, int, std::string>\<close>: thread id, file path,
  line number, line.
\<close>

type_synonym result_tuple = "thread_id \<times> string \<times> c_int \<times> string"

text \<open>
  What the program sees of the file system. \<open>dir_tree\<close> is what
  \<^verbatim>\<open>fs::recursive_directory_iterator\<close> and \<^verbatim>\<open>fs::exists\<close> see at a path (\<open>None\<close>: nothing
  exists there). \<open>file_content\<close> is what \<^verbatim>\<open>std::ifstream\<close> sees: the bytes of the file when
  it can be opened for reading, \<open>None\<close> when it cannot. The two are independent, since a
  file that was listed may be unreadable or may have vanished when a task opens it.
\<close>

datatype node =
    RegularFile
  | Directory "(string \<times> node) list"
  | DeniedDirectory
  | Other

record filesystem =
  dir_tree :: "path \<Rightarrow> node option"
  file_content :: "path \<Rightarrow> string option"
  current_path :: path
  preferred_separator :: char

text \<open>
  The observable effects of the program: opening a file for reading, a line written to
  \<^verbatim>\<open>std::cerr\<close>, and opening (creating) a file for writing. No function of the program
  causes the last one; it is there so that it can be said.
\<close>

datatype effect =
    OpenForReading path
  | WriteStderr string
  | OpenForWriting path

text \<open>
  The exceptions and traps that leave a function of the program: \<^verbatim>\<open>fs::filesystem_error\<close>
  from the directory iterator, an iterator range that is not one, the trap of an integer
  division by zero, the two exceptions of \<^verbatim>\<open>std::stoi\<close>, and a null \<^verbatim>\<open>argv[0]\<close>.
\<close>

datatype exn =
    filesystem_error
  | invalid_range
  | division_by_zero
  | invalid_argument
  | out_of_range
  | null_pointer

section \<open>The line scanner: \<^verbatim>\<open>searchFilesForString\<close>\<close>

definition newline :: char where
  "newline = CHR 0x0A"

text \<open>
  \<^verbatim>\<open>std::getline(file, line)\<close> on the bytes that are left of the stream: it fails when the
  stream is at its end; otherwise it takes the characters up to the next newline (or up to
  the end of the stream), and drops that newline.
\<close>

definition getline :: "string \<Rightarrow> (string \<times> string) option" where
  "getline stream =
     (if stream = [] then None
      else Some (takeWhile (\<lambda>c. c \<noteq> newline) stream,
                 drop 1 (dropWhile (\<lambda>c. c \<noteq> newline) stream)))"

text \<open>
  \<^verbatim>\<open>line.find(search_string)\<close>: the least position at which \<open>search_string\<close> starts in
  \<open>line\<close>, \<open>None\<close> for \<^verbatim>\<open>std::string::npos\<close>. The empty string is found at position 0 of
  every line, the empty line included.
\<close>

fun find_from :: "string \<Rightarrow> string \<Rightarrow> nat \<Rightarrow> nat option" where
  "find_from [] search_string pos = (if search_string = [] then Some pos else None)"
| "find_from (c # cs) search_string pos =
     (if take (length search_string) (c # cs) = search_string then Some pos
      else find_from cs search_string (Suc pos))"

definition string_find :: "string \<Rightarrow> string \<Rightarrow> nat option" where
  "string_find line search_string = find_from line search_string 0"

text \<open>
  The inner loop \<^verbatim>\<open>while (std::getline(file, line))\<close>: the line number is incremented for
  every line read, and a tuple is appended for every line in which the string is found.
\<close>

lemma getline_shorter:
  assumes "getline stream = Some (line, rest)"
  shows "length rest < length stream"
proof -
  from assms have ne: "stream \<noteq> []"
    and r: "rest = drop 1 (dropWhile (\<lambda>c. c \<noteq> newline) stream)"
    by (auto simp: getline_def split: if_splits)
  have "length (dropWhile (\<lambda>c. c \<noteq> newline) stream) \<le> length stream"
    by (rule length_dropWhile_le)
  with ne r show ?thesis by (cases stream) auto
qed

function read_lines ::
  "thread_id \<Rightarrow> string \<Rightarrow> path \<Rightarrow> string \<Rightarrow> c_int \<Rightarrow> result_tuple list \<Rightarrow> result_tuple list"
where
  "read_lines thread_id search_string file_path stream line_number results =
     (case getline stream of
        None \<Rightarrow> results
      | Some (line, rest) \<Rightarrow>
          read_lines thread_id search_string file_path rest (line_number + 1)
            (if string_find line search_string \<noteq> None
             then results @ [(thread_id, file_path, line_number + 1, line)]
             else results))"
  by pat_completeness auto
termination
  by (relation "measure (\<lambda>(t, s, p, stream, n, r). length stream)")
     (auto dest: getline_shorter)

text \<open>
  \<^verbatim>\<open>std::ifstream file(file_path); file.good()\<close>: the stream is good exactly when the file
  was opened. No file has the empty path.
\<close>

definition ifstream :: "filesystem \<Rightarrow> path \<Rightarrow> string option" where
  "ifstream fs file_path = (if file_path = [] then None else file_content fs file_path)"

definition open_error_message :: "path \<Rightarrow> string" where
  "open_error_message file_path =
     ''Error: could not open file '' @ file_path @ '' due to permission issues.'' @ [newline]"

text \<open>
  The outer loop over \<open>files_to_search\<close>, with the vector \<open>results\<close> and the effects so far
  as its state.
\<close>

fun search_loop ::
  "filesystem \<Rightarrow> thread_id \<Rightarrow> string \<Rightarrow> path list \<Rightarrow> result_tuple list \<Rightarrow> effect list
    \<Rightarrow> result_tuple list \<times> effect list"
where
  "search_loop fs thread_id search_string [] results effects = (results, effects)"
| "search_loop fs thread_id search_string (file_path # files) results effects =
     (case ifstream fs file_path of
        Some stream \<Rightarrow>
          search_loop fs thread_id search_string files
            (read_lines thread_id search_string file_path stream 0 results)
            (effects @ [OpenForReading file_path])
      | None \<Rightarrow>
          search_loop fs thread_id search_string files results
            (effects @ [OpenForReading file_path, WriteStderr (open_error_message file_path)]))"

text \<open>
  \<^verbatim>\<open>searchFilesForString\<close>, run by the thread \<open>thread_id\<close>: when no tuple was produced, one
  tuple \<^verbatim>\<open>(thread_id, "", NULL, "")\<close> is returned instead.
\<close>

definition searchFilesForString ::
  "filesystem \<Rightarrow> thread_id \<Rightarrow> string \<Rightarrow> path list \<Rightarrow> result_tuple list \<times> effect list"
where
  "searchFilesForString fs thread_id search_string files_to_search =
     (case search_loop fs thread_id search_string files_to_search [] [] of
        (results, effects) \<Rightarrow>
          (if results = [] then [(thread_id, [], 0, [])] else results, effects))"

section \<open>The file enumerator, the partitioner and the coordinator: \<^verbatim>\<open>searchDirectoryForString\<close>\<close>

text \<open>
  \<^verbatim>\<open>operator/\<close> of \<^verbatim>\<open>fs::path\<close>: the name of a directory entry is appended to the path of
  its directory, after a separator unless the path already ends with one.
\<close>

definition path_append :: "char \<Rightarrow> path \<Rightarrow> string \<Rightarrow> path" where
  "path_append sep p name = (if p = [] \<or> last p = sep then p @ name else p @ [sep] @ name)"

text \<open>
  The loop over \<^verbatim>\<open>fs::recursive_directory_iterator(directory_path)\<close> that keeps the entries
  for which \<^verbatim>\<open>fs::is_regular_file\<close> holds. The iterator yields the entries of a directory in
  the order in which the directory lists them and descends into a subdirectory right after
  yielding it. It throws \<^verbatim>\<open>fs::filesystem_error\<close> when a directory cannot be opened, and
  at the start when \<open>directory_path\<close> is not a directory or does not exist.
\<close>

fun walk :: "char \<Rightarrow> path \<Rightarrow> node \<Rightarrow> exn + path list"
  and walk_entries :: "char \<Rightarrow> path \<Rightarrow> (string \<times> node) list \<Rightarrow> exn + path list"
where
  "walk sep p RegularFile = Inr [p]"
| "walk sep p (Directory entries) = walk_entries sep p entries"
| "walk sep p DeniedDirectory = Inl filesystem_error"
| "walk sep p Other = Inr []"
| "walk_entries sep p [] = Inr []"
| "walk_entries sep p (entry # entries) =
     (case walk sep (path_append sep p (fst entry)) (snd entry) of
        Inl e \<Rightarrow> Inl e
      | Inr found \<Rightarrow>
          (case walk_entries sep p entries of
             Inl e \<Rightarrow> Inl e
           | Inr others \<Rightarrow> Inr (found @ others)))"

definition recursive_files :: "filesystem \<Rightarrow> path \<Rightarrow> exn + path list" where
  "recursive_files fs directory_path =
     (case dir_tree fs directory_path of
        Some (Directory entries) \<Rightarrow> walk_entries (preferred_separator fs) directory_path entries
      | _ \<Rightarrow> Inl filesystem_error)"

text \<open>
  \<^verbatim>\<open>const int files_per_thread = files_to_search.size() / thread_count\<close>: \<open>thread_count\<close>
  is converted to \<^verbatim>\<open>std::size_t\<close>, the division is unsigned, and its result is narrowed to
  \<^verbatim>\<open>int\<close>. The caller checks that \<open>thread_count\<close> is not 0.
\<close>

definition vector_size :: "path list \<Rightarrow> size_t" where
  "vector_size files = word_of_nat (length files)"

definition files_per_thread :: "path list \<Rightarrow> c_int \<Rightarrow> c_int" where
  "files_per_thread files thread_count = ucast (vector_size files div scast thread_count)"

definition start_index :: "path list \<Rightarrow> c_int \<Rightarrow> c_int \<Rightarrow> c_int" where
  "start_index files thread_count i = i * files_per_thread files thread_count"

definition end_index :: "path list \<Rightarrow> c_int \<Rightarrow> c_int \<Rightarrow> c_int" where
  "end_index files thread_count i =
     (if i + 1 = thread_count then ucast (vector_size files)
      else (i + 1) * files_per_thread files thread_count)"

text \<open>
  \<^verbatim>\<open>std::vector<fs::path>(files.begin() + start_index, files.begin() + end_index)\<close>. When
  the two iterators are not a range of the vector, the constructor throws
  \<^verbatim>\<open>std::length_error\<close> or the behaviour is undefined; \<open>invalid_range\<close> stands for both.
\<close>

definition vector_from_range :: "path list \<Rightarrow> c_int \<Rightarrow> c_int \<Rightarrow> exn + path list" where
  "vector_from_range files first_index past_index =
     (if 0 \<le> sint first_index \<and> sint first_index \<le> sint past_index \<and>
         sint past_index \<le> int (length files)
      then Inr (take (nat (sint past_index) - nat (sint first_index))
                  (drop (nat (sint first_index)) files))
      else Inl invalid_range)"

definition task_files :: "path list \<Rightarrow> c_int \<Rightarrow> nat \<Rightarrow> exn + path list" where
  "task_files files thread_count i =
     vector_from_range files (start_index files thread_count (word_of_nat i))
       (end_index files thread_count (word_of_nat i))"

text \<open>
  The loop \<^verbatim>\<open>for (int i = 0; i < thread_count; ++i)\<close> over the indices that are left, with
  the futures so far: task \<open>i\<close> runs \<open>searchFilesForString\<close> on its subset in a thread of its
  own, whose id is \<open>thread_ids i\<close>. A future holds what the task returns and the effects it
  causes. An exception of the subset's constructor ends the loop.
\<close>

type_synonym future = "result_tuple list \<times> effect list"

fun launch_tasks ::
  "filesystem \<Rightarrow> (nat \<Rightarrow> thread_id) \<Rightarrow> string \<Rightarrow> path list \<Rightarrow> c_int \<Rightarrow> nat list \<Rightarrow> future list
    \<Rightarrow> exn option \<times> future list"
where
  "launch_tasks fs thread_ids search_string files thread_count [] futures = (None, futures)"
| "launch_tasks fs thread_ids search_string files thread_count (i # indices) futures =
     (case task_files files thread_count i of
        Inl e \<Rightarrow> (Some e, futures)
      | Inr files_subset \<Rightarrow>
          launch_tasks fs thread_ids search_string files thread_count indices
            (futures @ [searchFilesForString fs (thread_ids i) search_string files_subset]))"

text \<open>
  \<^verbatim>\<open>searchDirectoryForString\<close>: what it returns or throws, and the effects of the tasks it
  started, task by task (tasks run concurrently, so their effects are not interleaved into
  one sequence). The results of the futures are appended in the order of the futures; the
  number of files is narrowed to \<^verbatim>\<open>int\<close> in the pair that is returned.
\<close>

definition searchDirectoryForString ::
  "filesystem \<Rightarrow> (nat \<Rightarrow> thread_id) \<Rightarrow> string \<Rightarrow> path \<Rightarrow> c_int
    \<Rightarrow> (exn + result_tuple list \<times> c_int) \<times> effect list list"
where
  "searchDirectoryForString fs thread_ids search_string directory_path thread_count =
     (case recursive_files fs directory_path of
        Inl e \<Rightarrow> (Inl e, [])
      | Inr files_to_search \<Rightarrow>
          if thread_count = 0 then (Inl division_by_zero, [])
          else
            (case launch_tasks fs thread_ids search_string files_to_search thread_count
                    [0..<nat (sint thread_count)] [] of
               (Some e, futures) \<Rightarrow> (Inl e, map snd futures)
             | (None, futures) \<Rightarrow>
                 (Inr (concat (map fst futures), ucast (vector_size files_to_search)),
                  map snd futures)))"

section \<open>The command line: \<^verbatim>\<open>isValidFilename\<close> and \<^verbatim>\<open>main\<close>\<close>

text \<open>
  \<^verbatim>\<open>isValidFilename\<close>: the regular expression \<^verbatim>\<open>[^\w\-. ]\<close> finds a character that is not a
  letter, a digit, an underscore, a hyphen, a dot or a space; the name is valid when there
  is none.
\<close>

definition is_word_char :: "char \<Rightarrow> bool" where
  "is_word_char c \<longleftrightarrow>
     (48 \<le> (of_char c :: nat) \<and> (of_char c :: nat) \<le> 57) \<or>
     (65 \<le> (of_char c :: nat) \<and> (of_char c :: nat) \<le> 90) \<or>
     (97 \<le> (of_char c :: nat) \<and> (of_char c :: nat) \<le> 122) \<or>
     c = CHR ''_''"

definition isValidFilename :: "string \<Rightarrow> bool" where
  "isValidFilename filename =
     list_all (\<lambda>c. is_word_char c \<or> c = CHR ''-'' \<or> c = CHR ''.'' \<or> c = CHR '' '') filename"

text \<open>
  \<^verbatim>\<open>std::stoi\<close>: white space is skipped, then an optional sign and the decimal digits that
  follow are read, and what comes after them is ignored. Without a digit it throws
  \<^verbatim>\<open>std::invalid_argument\<close>; when the number is not an \<^verbatim>\<open>int\<close> it throws
  \<^verbatim>\<open>std::out_of_range\<close>.
\<close>

definition isspace :: "char \<Rightarrow> bool" where
  "isspace c \<longleftrightarrow> c \<in> set [CHR '' '', CHR 0x09, CHR 0x0A, CHR 0x0B, CHR 0x0C, CHR 0x0D]"

definition isdigit :: "char \<Rightarrow> bool" where
  "isdigit c \<longleftrightarrow> 48 \<le> (of_char c :: nat) \<and> (of_char c :: nat) \<le> 57"

definition digits_value :: "string \<Rightarrow> nat" where
  "digits_value digits = foldl (\<lambda>n c. 10 * n + (of_char c - 48)) 0 digits"

definition stoi :: "string \<Rightarrow> exn + c_int" where
  "stoi str =
     (let unspaced = dropWhile isspace str;
          negative = (take 1 unspaced = ''-'');
          unsigned = (if take 1 unspaced = ''-'' \<or> take 1 unspaced = ''+''
                      then drop 1 unspaced else unspaced);
          digits = takeWhile isdigit unsigned;
          number = (if negative then - int (digits_value digits) else int (digits_value digits))
      in if digits = [] then Inl invalid_argument
         else if number < - (2 ^ 31) \<or> 2 ^ 31 \<le> number then Inl out_of_range
         else Inr (word_of_int number))"

text \<open>
  \<^verbatim>\<open>fs::path(argv[0]).filename()\<close> is what follows the last separator, and the program name
  \<^verbatim>\<open>filename.substr(0, filename.find_last_of("."))\<close> is what precedes the last dot of it (all
  of it when it has no dot).
\<close>

definition path_filename :: "char \<Rightarrow> path \<Rightarrow> string" where
  "path_filename sep p = rev (takeWhile (\<lambda>c. c \<noteq> sep) (rev p))"

definition program_name_of :: "string \<Rightarrow> string" where
  "program_name_of filename =
     (if CHR ''.'' \<in> set filename
      then rev (drop 1 (dropWhile (\<lambda>c. c \<noteq> CHR ''.'') (rev filename)))
      else filename)"

definition usage_message :: "string \<Rightarrow> string" where
  "usage_message filename =
     ''Error: wrong usage of the program'' @ [newline] @
     ''Usage: '' @ filename @ '' <search string> [options]'' @ [newline] @
     ''Options:'' @ [newline] @
     ''  -d <directory> - directory to search in (default: current directory)'' @ [newline] @
     ''  -l <log filename> - log filename (default: <program name>.log)'' @ [newline] @
     ''  -r <result filename> - result filename (default: <program name>.txt)'' @ [newline] @
     ''  -t <thread count> - number of threads to use (default: 4)'' @ [newline]"

text \<open>The local variables of \<open>main\<close> that the loop over the options changes.\<close>

record options =
  directory_path :: string
  log_filename :: string
  result_filename :: string
  thread_cnt :: c_int
  dir_opt :: bool
  log_filename_opt :: bool
  result_filename_opt :: bool
  thread_cnt_opt :: bool

text \<open>
  How the loop over the options ends: all options were read, \<open>main\<close> wrote a message to
  \<^verbatim>\<open>std::cerr\<close> and returned 1, or an exception left it.
\<close>

datatype parsed =
    Parsed options
  | Failed string
  | Thrown exn

definition exists :: "filesystem \<Rightarrow> path \<Rightarrow> bool" where
  "exists fs p \<longleftrightarrow> dir_tree fs p \<noteq> None"

text \<open>
  The loop \<^verbatim>\<open>for (int i = 1; i <= additional_options_cnt; i++)\<close> over the pairs
  \<^verbatim>\<open>argv[i * 2]\<close>, \<^verbatim>\<open>argv[i * 2 + 1]\<close> that are left.
\<close>

fun options_loop :: "filesystem \<Rightarrow> string list \<Rightarrow> options \<Rightarrow> parsed" where
  "options_loop fs (name # val # rest) st =
     (if name = ''-d'' \<or> name = ''--dir'' then
        (if dir_opt st
         then Failed (''Error: multiple usage of the starting directory option'' @ [newline])
         else if \<not> exists fs (directory_path st @ [CHR 0x5C] @ val)
         then Failed (''Error: directory does not exist'' @ [newline])
         else options_loop fs rest
                (st\<lparr>directory_path := directory_path st @ [CHR 0x5C] @ val, dir_opt := True\<rparr>))
      else if name = ''-l'' \<or> name = ''--log_file'' then
        (if log_filename_opt st
         then Failed (''Error: multiple usage of the log filename option'' @ [newline])
         else if \<not> isValidFilename val
         then Failed (''Error: invalid log filename'' @ [newline])
         else options_loop fs rest (st\<lparr>log_filename := val, log_filename_opt := True\<rparr>))
      else if name = ''-r'' \<or> name = ''--result_file'' then
        (if result_filename_opt st
         then Failed (''Error: multiple usage of the result filename option'' @ [newline])
         else if \<not> isValidFilename val
         then Failed (''Error: invalid result filename'' @ [newline])
         else options_loop fs rest (st\<lparr>result_filename := val, result_filename_opt := True\<rparr>))
      else if name = ''-t'' \<or> name = ''--threads'' then
        (if thread_cnt_opt st
         then Failed (''Error: multiple usage of the thread count option'' @ [newline])
         else (case stoi val of
                 Inl e \<Rightarrow>
                   if e = invalid_argument
                   then Failed (''Error: invalid thread count'' @ [newline])
                   else Thrown e
               | Inr n \<Rightarrow> options_loop fs rest (st\<lparr>thread_cnt := n, thread_cnt_opt := True\<rparr>)))
      else Failed (''Wrong usage of the additional parameters.'' @ [newline]))"
| "options_loop fs rest st = Parsed st"

text \<open>
  How the program ends: \<open>main\<close> returns, or an exception that nothing catches (or a trap)
  ends it.
\<close>

datatype outcome =
    Exit c_int
  | Uncaught exn

text \<open>
  \<open>main\<close>: how the program ends, the lines that \<open>main\<close> itself writes to \<^verbatim>\<open>std::cerr\<close>, and
  the effects of the tasks. The pair that \<open>searchDirectoryForString\<close> returns is not used.
\<close>

definition main ::
  "filesystem \<Rightarrow> (nat \<Rightarrow> thread_id) \<Rightarrow> string list \<Rightarrow> outcome \<times> string list \<times> effect list list"
where
  "main fs thread_ids argv =
     (case argv of
        [] \<Rightarrow> (Uncaught null_pointer, [], [])
      | program # arguments \<Rightarrow>
          if length argv = 1
          then (Exit 1, [usage_message (path_filename (preferred_separator fs) program)], [])
          else if \<not> (length argv mod 2 = 0) \<or> length argv > 10
          then (Exit 1, [''Error: wrong number of arguments'' @ [newline]], [])
          else
            (case options_loop fs (drop 2 argv)
                    \<lparr>directory_path = current_path fs,
                     log_filename =
                       program_name_of (path_filename (preferred_separator fs) program),
                     result_filename =
                       program_name_of (path_filename (preferred_separator fs) program),
                     thread_cnt = 4,
                     dir_opt = False, log_filename_opt = False,
                     result_filename_opt = False, thread_cnt_opt = False\<rparr> of
               Failed message \<Rightarrow> (Exit 1, [message], [])
             | Thrown e \<Rightarrow> (Uncaught e, [], [])
             | Parsed st \<Rightarrow>
                 (case searchDirectoryForString fs thread_ids (argv ! 1)
                         (directory_path st) (thread_cnt st) of
                    (Inl e, effects) \<Rightarrow> (Uncaught e, [], effects)
                  | (Inr results, effects) \<Rightarrow> (Exit 0, [], effects))))"

section \<open>Derived views\<close>

subsection \<open>Views of the line scanner\<close>

text \<open>
  The lines that the loop around \<open>getline\<close> reads from a stream, in order.
\<close>

function getlines :: "string \<Rightarrow> string list" where
  "getlines stream =
     (case getline stream of None \<Rightarrow> [] | Some (line, rest) \<Rightarrow> line # getlines rest)"
  by pat_completeness auto
termination
  by (relation "measure length") (auto dest: getline_shorter)

declare getlines.simps [simp del]
declare read_lines.simps [simp del]

text \<open>
  The tuples that the inner loop appends for the lines \<open>ls\<close>, when the line number
  was \<open>n\<close> before the first of them.
\<close>

fun matches_from :: "thread_id \<Rightarrow> string \<Rightarrow> path \<Rightarrow> string list \<Rightarrow> c_int \<Rightarrow> result_tuple list" where
  "matches_from t s p [] n = []"
| "matches_from t s p (l # ls) n =
     (if string_find l s \<noteq> None then [(t, p, n + 1, l)] else []) @ matches_from t s p ls (n + 1)"

text \<open>What one file of the partition adds to \<open>results\<close>, and the effects it causes.\<close>

definition file_results :: "filesystem \<Rightarrow> thread_id \<Rightarrow> string \<Rightarrow> path \<Rightarrow> result_tuple list" where
  "file_results fs t s p =
     (case ifstream fs p of None \<Rightarrow> [] | Some stream \<Rightarrow> matches_from t s p (getlines stream) 0)"

definition file_effects :: "filesystem \<Rightarrow> path \<Rightarrow> effect list" where
  "file_effects fs p =
     (case ifstream fs p of
        None \<Rightarrow> [OpenForReading p, WriteStderr (open_error_message p)]
      | Some stream \<Rightarrow> [OpenForReading p])"

subsection \<open>The lines of a file, in the words of the specification\<close>

text \<open>
  A file has the lines \<open>ls\<close> when no line holds a newline and the file is these lines,
  each followed by a newline; the newline after the last line may be missing when that
  line is not empty. The tuples expected for a file with these lines carry the line
  numbers as integers, counted from 1, for the lines that hold the search string as a
  contiguous substring.
\<close>

definition text_of :: "string list \<Rightarrow> string" where
  "text_of ls = concat (map (\<lambda>l. l @ [newline]) ls)"

definition has_lines :: "string \<Rightarrow> string list \<Rightarrow> bool" where
  "has_lines content ls \<longleftrightarrow>
     (\<forall>l \<in> set ls. newline \<notin> set l) \<and>
     (content = text_of ls \<or> (ls \<noteq> [] \<and> last ls \<noteq> [] \<and> content @ [newline] = text_of ls))"



subsection \<open>The partitions, in the words of the specification\<close>

text \<open>
  Partition \<open>k\<close> of \<open>n\<close> of a file list of length \<open>L\<close> starts at \<open>k * (L div n)\<close>; it has
  \<open>L div n\<close> elements, except the last one (\<open>k = n - 1\<close>), which goes on to the end of the
  list.
\<close>

definition expected_partition :: "path list \<Rightarrow> nat \<Rightarrow> nat \<Rightarrow> path list" where
  "expected_partition files n k =
     take (if Suc k = n then length files - k * (length files div n) else length files div n)
       (drop (k * (length files div n)) files)"

subsection \<open>The tuples of a task, in file-then-line order\<close>

text \<open>
  For the files of a partition in their order, and for every file that can be opened, the
  lines that hold the search string, in the order of the lines: thread id, path, line
  number (the position of the line counted from 1, as an \<^verbatim>\<open>int\<close>) and line.
\<close>

definition records_in_order ::
  "filesystem \<Rightarrow> thread_id \<Rightarrow> string \<Rightarrow> path list \<Rightarrow> result_tuple list"
where
  "records_in_order fs t s files =
     concat (map (\<lambda>p.
       case ifstream fs p of
         None \<Rightarrow> []
       | Some content \<Rightarrow>
           map (\<lambda>i. (t, p, word_of_nat (Suc i), getlines content ! i))
             (filter (\<lambda>i. \<exists>u v. getlines content ! i = u @ s @ v)
               [0..<length (getlines content)])) files)"

subsection \<open>Views of the command line\<close>

text \<open>
  The option that a name stands for, by the comparisons of \<open>main\<close> in their order.
\<close>

datatype option_kind = DirOption | LogOption | ResultOption | ThreadsOption | UnknownOption

definition option_kind_of :: "string \<Rightarrow> option_kind" where
  "option_kind_of name =
     (if name = ''-d'' \<or> name = ''--dir'' then DirOption
      else if name = ''-l'' \<or> name = ''--log_file'' then LogOption
      else if name = ''-r'' \<or> name = ''--result_file'' then ResultOption
      else if name = ''-t'' \<or> name = ''--threads'' then ThreadsOption
      else UnknownOption)"

text \<open>
  The local variables of \<open>main\<close> before the loop over the options, and what \<open>main\<close> does
  after that loop.
\<close>

definition initial_options :: "filesystem \<Rightarrow> string \<Rightarrow> options" where
  "initial_options fs program =
     \<lparr>directory_path = current_path fs,
      log_filename = program_name_of (path_filename (preferred_separator fs) program),
      result_filename = program_name_of (path_filename (preferred_separator fs) program),
      thread_cnt = 4,
      dir_opt = False, log_filename_opt = False,
      result_filename_opt = False, thread_cnt_opt = False\<rparr>"

definition after_options ::
  "filesystem \<Rightarrow> (nat \<Rightarrow> thread_id) \<Rightarrow> string \<Rightarrow> parsed
    \<Rightarrow> outcome \<times> string list \<times> effect list list"
where
  "after_options fs tids search_string r =
     (case r of
        Failed message \<Rightarrow> (Exit 1, [message], [])
      | Thrown e \<Rightarrow> (Uncaught e, [], [])
      | Parsed st \<Rightarrow>
          (case searchDirectoryForString fs tids search_string
                  (directory_path st) (thread_cnt st) of
             (Inl e, effects) \<Rightarrow> (Uncaught e, [], effects)
           | (Inr results, effects) \<Rightarrow> (Exit 0, [], effects)))"

text \<open>
  The options without the log and result filenames; and a command line in which every
  valid log or result filename is replaced by another name.
\<close>

definition forget :: "options \<Rightarrow> options" where
  "forget st = st\<lparr>log_filename := [], result_filename := []\<rparr>"

fun erase :: "parsed \<Rightarrow> parsed" where
  "erase (Parsed st) = Parsed (forget st)"
| "erase (Failed message) = Failed message"
| "erase (Thrown e) = Thrown e"

fun replace_names :: "string \<Rightarrow> string list \<Rightarrow> string list" where
  "replace_names new (name # val # rest) =
     name #
     (if (name = ''-l'' \<or> name = ''--log_file'' \<or> name = ''-r'' \<or> name = ''--result_file'') \<and>
         isValidFilename val
      then new else val) #
     replace_names new rest"
| "replace_names new rest = rest"

section \<open>An example file system\<close>

text \<open>
  A directory \<^verbatim>\<open>root\<close> with the file \<^verbatim>\<open>a.txt\<close> (lines \<^verbatim>\<open>foo\<close>, \<^verbatim>\<open>bar baz\<close>), a subdirectory
  with the file \<^verbatim>\<open>b.txt\<close> (lines \<^verbatim>\<open>nothing\<close>, \<^verbatim>\<open>foo again\<close>, the last one not terminated)
  and a file \<^verbatim>\<open>locked\<close> that cannot be opened. It is the current directory.
\<close>

definition example_fs :: filesystem where
  "example_fs =
     \<lparr>dir_tree = (\<lambda>p. if p = ''root''
        then Some (Directory [(''a.txt'', RegularFile), (''sub'', Directory [(''b.txt'', RegularFile)]),
                              (''locked'', RegularFile)])
        else if p = ''root/a.txt'' then Some RegularFile
        else None),
      file_content = (\<lambda>p.
        if p = ''root/a.txt'' then Some (''foo'' @ [newline] @ ''bar baz'' @ [newline])
        else if p = ''root/sub/b.txt'' then Some (''nothing'' @ [newline] @ ''foo again'')
        else None),
      current_path = ''root'',
      preferred_separator = CHR ''/''\<rparr>"



section \<open>Properties of the line scanner\<close>

lemma read_lines_eq:
  "read_lines t s p stream n results = results @ matches_from t s p (getlines stream) n"
proof (induction t s p stream n results rule: read_lines.induct)
  case (1 t s p stream n results)
  show ?case
  proof (cases "getline stream")
    case None
    then show ?thesis by (subst read_lines.simps, subst getlines.simps) simp
  next
    case (Some a)
    obtain line rest where a: "a = (line, rest)" by (cases a)
    from 1 [OF Some a [symmetric]] Some a show ?thesis
      by (subst read_lines.simps, subst getlines.simps) simp
  qed
qed

lemma find_from_Some: "find_from l s pos \<noteq> None \<longleftrightarrow> (\<exists>u v. l = u @ s @ v)"
proof (induction l arbitrary: pos)
  case Nil
  then show ?case by auto
next
  case (Cons c cs)
  show ?case
  proof (cases "take (length s) (c # cs) = s")
    case True
    have "c # cs = take (length s) (c # cs) @ drop (length s) (c # cs)"
      by (simp only: append_take_drop_id)
    with True have "c # cs = [] @ s @ drop (length s) (c # cs)"
      by (simp only: append_Nil)
    then have "\<exists>u v. c # cs = u @ s @ v" by blast
    with True show ?thesis by simp
  next
    case False
    have "(\<exists>u v. c # cs = u @ s @ v) \<longleftrightarrow> (\<exists>u v. cs = u @ s @ v)"
    proof
      assume "\<exists>u v. c # cs = u @ s @ v"
      then obtain u v where uv: "c # cs = u @ s @ v" by blast
      show "\<exists>u v. cs = u @ s @ v"
      proof (cases u)
        case Nil
        with uv have "take (length s) (c # cs) = s" by simp
        with False show ?thesis by simp
      next
        case (Cons a u')
        with uv have "cs = u' @ s @ v" by simp
        then show ?thesis by blast
      qed
    next
      assume "\<exists>u v. cs = u @ s @ v"
      then obtain u v where "cs = u @ s @ v" by blast
      then have "c # cs = (c # u) @ s @ v" by simp
      then show "\<exists>u v. c # cs = u @ s @ v" by blast
    qed
    with False Cons.IH [of "Suc pos"] show ?thesis by simp
  qed
qed

lemma string_find_iff: "string_find l s \<noteq> None \<longleftrightarrow> (\<exists>u v. l = u @ s @ v)"
  by (simp only: string_find_def find_from_Some)

lemma search_loop_eq:
  "search_loop fs t s files results effects =
     (results @ concat (map (file_results fs t s) files),
      effects @ concat (map (file_effects fs) files))"
  by (induction files arbitrary: results effects)
     (simp_all add: file_results_def file_effects_def read_lines_eq split: option.split)

lemma getline_terminated:
  assumes "newline \<notin> set l"
  shows "getline (l @ newline # rest) = Some (l, rest)"
proof -
  from assms have all: "\<And>x. x \<in> set l \<Longrightarrow> x \<noteq> newline" by blast
  have "takeWhile (\<lambda>c. c \<noteq> newline) (l @ newline # rest) = l"
    by (simp add: takeWhile_append2 [OF all])
  moreover have "dropWhile (\<lambda>c. c \<noteq> newline) (l @ newline # rest) = newline # rest"
    by (simp add: dropWhile_append2 [OF all])
  ultimately show ?thesis by (simp add: getline_def)
qed

lemma getline_last:
  assumes "newline \<notin> set l" and "l \<noteq> []"
  shows "getline l = Some (l, [])"
proof -
  from assms have all: "\<forall>x \<in> set l. x \<noteq> newline" by blast
  then have tw: "takeWhile (\<lambda>c. c \<noteq> newline) l = l"
    and dw: "dropWhile (\<lambda>c. c \<noteq> newline) l = []"
    by simp_all
  show ?thesis unfolding getline_def tw dw using assms(2) by simp
qed

lemma getlines_Nil: "getlines [] = []"
  by (subst getlines.simps) (simp add: getline_def)

lemma getlines_text_of:
  "\<forall>l \<in> set ls. newline \<notin> set l \<Longrightarrow> getlines (text_of ls @ rest) = ls @ getlines rest"
proof (induction ls)
  case Nil
  then show ?case by (simp add: text_of_def)
next
  case (Cons l ls)
  then have nl: "newline \<notin> set l" and IH: "getlines (text_of ls @ rest) = ls @ getlines rest"
    by simp_all
  have "getlines (text_of (l # ls) @ rest) = getlines (l @ newline # (text_of ls @ rest))"
    by (simp add: text_of_def)
  also have "\<dots> = l # getlines (text_of ls @ rest)"
    by (subst getlines.simps) (simp add: getline_terminated [OF nl])
  finally show ?case using IH by simp
qed

lemma has_lines_getlines:
  assumes "has_lines content ls"
  shows "getlines content = ls"
proof -
  from assms have nl: "\<forall>l \<in> set ls. newline \<notin> set l" by (simp add: has_lines_def)
  from assms consider (terminated) "content = text_of ls"
    | (open_end) "ls \<noteq> []" "last ls \<noteq> []" "content @ [newline] = text_of ls"
    by (auto simp: has_lines_def)
  then show ?thesis
  proof cases
    case terminated
    with getlines_text_of [OF nl, of "[]"] show ?thesis by (simp add: getlines_Nil)
  next
    case open_end
    from open_end(1) obtain ks k where ls: "ls = ks @ [k]"
      by (metis append_butlast_last_id)
    with open_end have k: "k \<noteq> []" and c: "content = text_of ks @ k"
      by (simp_all add: text_of_def)
    from nl ls have nks: "\<forall>l \<in> set ks. newline \<notin> set l" and nk: "newline \<notin> set k"
      by simp_all
    have "getlines k = [k]"
      by (subst getlines.simps) (simp add: getline_last [OF nk k] getlines_Nil)
    with getlines_text_of [OF nks, of k] c ls show ?thesis by simp
  qed
qed

lemma matches_from_eq:
  "matches_from t s p ls n =
     map (\<lambda>i. (t, p, n + word_of_nat (Suc i), ls ! i))
       (filter (\<lambda>i. string_find (ls ! i) s \<noteq> None) [0..<length ls])"
proof (induction ls arbitrary: n)
  case Nil
  then show ?case by simp
next
  case (Cons l ls)
  have upt: "[0..<length (l # ls)] = 0 # map Suc [0..<length ls]"
    by (simp add: upt_conv_Cons map_Suc_upt del: upt_Suc)
  show ?case
    unfolding upt
    by (simp add: Cons.IH filter_map comp_def ac_simps del: upt_Suc)
qed

lemma sint_line_number:
  "k < 2 ^ 31 \<Longrightarrow> sint (word_of_nat k :: c_int) = int k"
  by (simp add: signed_of_nat signed_take_bit_int_eq_self)

lemma has_lines_self: "has_lines content (getlines content)"
proof (induction content rule: getlines.induct)
  case (1 stream)
  show ?case
  proof (cases "stream = []")
    case True
    then show ?thesis by (simp add: getlines_Nil has_lines_def text_of_def)
  next
    case False
    define l where "l = takeWhile (\<lambda>c. c \<noteq> newline) stream"
    define d where "d = dropWhile (\<lambda>c. c \<noteq> newline) stream"
    have g: "getline stream = Some (l, drop 1 d)"
      using False by (simp add: getline_def l_def d_def)
    have gl: "getlines stream = l # getlines (drop 1 d)"
      by (subst getlines.simps) (simp add: g)
    have IH: "has_lines (drop 1 d) (getlines (drop 1 d))"
      by (rule 1 [OF g refl])
    have nl: "newline \<notin> set l"
      unfolding l_def by (auto dest: set_takeWhileD)
    have split: "stream = l @ d"
      by (simp add: l_def d_def)
    show ?thesis
    proof (cases d)
      case Nil
      with split False have "l \<noteq> []" and "stream = l" by simp_all
      with Nil gl nl show ?thesis
        by (simp add: getlines_Nil has_lines_def text_of_def)
    next
      case (Cons c rest)
      have "c = newline"
        using Cons hd_dropWhile [of "\<lambda>c. c \<noteq> newline" stream] by (simp add: d_def)
      with Cons split have s: "stream = l @ newline # rest" and r: "drop 1 d = rest"
        by simp_all
      from IH r have "has_lines rest (getlines rest)" by simp
      with nl have "has_lines (l @ newline # rest) (l # getlines rest)"
        by (auto simp: has_lines_def text_of_def)
      moreover have "getlines stream = l # getlines rest"
        using gl r by simp
      ultimately show ?thesis using s by simp
    qed
  qed
qed

lemma has_lines_iff: "has_lines content ls \<longleftrightarrow> getlines content = ls"
  using has_lines_getlines has_lines_self by blast

lemma searchFilesForString_eq:
  "searchFilesForString fs t s files =
     (if concat (map (file_results fs t s) files) = [] then [(t, [], 0, [])]
      else concat (map (file_results fs t s) files),
      concat (map (file_effects fs) files))"
  by (simp add: searchFilesForString_def search_loop_eq)

lemma getlines_code:
  "getlines stream =
     (if stream = [] then []
      else takeWhile (\<lambda>c. c \<noteq> newline) stream
           # getlines (drop 1 (dropWhile (\<lambda>c. c \<noteq> newline) stream)))"
  by (subst getlines.simps) (simp add: getline_def)

lemma file_results_empty_string:
  "file_results fs t [] p =
     (case ifstream fs p of None \<Rightarrow> []
      | Some content \<Rightarrow>
          map (\<lambda>i. (t, p, word_of_nat (Suc i), getlines content ! i)) [0..<length (getlines content)])"
proof -
  have "string_find l [] \<noteq> None" for l
  proof -
    have "l = [] @ [] @ l" by simp
    then show ?thesis unfolding string_find_iff by blast
  qed
  then show ?thesis
    by (simp add: file_results_def matches_from_eq split: option.split)
qed



lemma matches_from_substring:
  "matches_from t s p ls n =
     map (\<lambda>i. (t, p, n + word_of_nat (Suc i), ls ! i))
       (filter (\<lambda>i. \<exists>u v. ls ! i = u @ s @ v) [0..<length ls])"
  by (simp only: matches_from_eq string_find_iff)













section \<open>Properties of the partitioner and the coordinator\<close>

lemma ucast_of_nat_narrow: "(ucast (word_of_nat m :: size_t) :: c_int) = word_of_nat m"
  by transfer (simp add: take_bit_of_nat min_def)

lemma unat_vector_size: "n < 2 ^ 31 \<Longrightarrow> unat (word_of_nat n :: size_t) = n"
  by (simp add: unat_of_nat take_bit_nat_eq_self)

lemma scast_thread_count:
  assumes "0 < sint (w :: c_int)"
  shows "(scast w :: size_t) = word_of_nat (nat (sint w))"
proof -
  have "(scast w :: size_t) = word_of_int (sint w)" by (rule scast_eq)
  also have "\<dots> = word_of_int (int (nat (sint w)))" using assms by simp
  also have "\<dots> = word_of_nat (nat (sint w))" by (simp only: of_int_of_nat_eq)
  finally show ?thesis .
qed

lemma thread_count_bound: "nat (sint (w :: c_int)) < 2 ^ 31"
  using sint_less [of w] by (simp add: nat_less_iff)

lemma thread_count_of_nat:
  assumes "0 < sint (w :: c_int)"
  shows "w = word_of_nat (nat (sint w))"
proof -
  have "w = word_of_int (sint w)" by simp
  also have "\<dots> = word_of_int (int (nat (sint w)))" using assms by simp
  also have "\<dots> = word_of_nat (nat (sint w))" by (simp only: of_int_of_nat_eq)
  finally show ?thesis .
qed

lemma files_per_thread_eq:
  assumes "length files < 2 ^ 31" and "0 < sint thread_count"
  shows "files_per_thread files thread_count =
           word_of_nat (length files div nat (sint thread_count))"
proof -
  let ?n = "nat (sint thread_count)"
  have n: "unat (word_of_nat ?n :: size_t) = ?n"
    by (rule unat_vector_size) (rule thread_count_bound)
  have "unat (vector_size files div scast thread_count) = length files div ?n"
    by (simp add: unat_div vector_size_def scast_thread_count [OF assms(2)]
        unat_vector_size [OF assms(1)] n)
  then have "vector_size files div scast thread_count =
      (word_of_nat (length files div ?n) :: size_t)"
    by (metis of_nat_unat ucast_id)
  then show ?thesis
    by (simp add: files_per_thread_def ucast_of_nat_narrow)
qed

lemma sint_of_nat_mult:
  assumes "k * q < 2 ^ 31"
  shows "sint (word_of_nat k * word_of_nat q :: c_int) = int (k * q)"
proof -
  have "(word_of_nat k * word_of_nat q :: c_int) = word_of_nat (k * q)" by simp
  with sint_line_number [OF assms] show ?thesis by (simp only:)
qed


lemma vector_from_range_eq:
  assumes "sint s = int a" and "sint e = int b" and "a \<le> b" and "b \<le> length files"
  shows "vector_from_range files s e = Inr (take (b - a) (drop a files))"
  using assms by (simp add: vector_from_range_def)

lemma task_files_eq:
  assumes L: "length files < 2 ^ 31" and W: "0 < sint thread_count"
    and k: "k < nat (sint thread_count)"
  shows "task_files files thread_count k =
     Inr (take (if Suc k = nat (sint thread_count)
                then length files - k * (length files div nat (sint thread_count))
                else length files div nat (sint thread_count))
            (drop (k * (length files div nat (sint thread_count))) files))"
proof -
  let ?n = "nat (sint thread_count)"
  let ?L = "length files"
  let ?q = "?L div ?n"
  have n31: "?n < 2 ^ 31" by (rule thread_count_bound)
  have npos: "0 < ?n" using W by simp
  have nq: "?n * ?q \<le> ?L" by simp
  have kq: "k * ?q \<le> ?L" and skq: "Suc k * ?q \<le> ?L"
  proof -
    from k have "Suc k \<le> ?n" by simp
    then have "Suc k * ?q \<le> ?n * ?q" by (rule mult_le_mono1)
    with nq show "Suc k * ?q \<le> ?L" by linarith
    then show "k * ?q \<le> ?L" by simp
  qed
  have fpt: "files_per_thread files thread_count = word_of_nat ?q"
    by (rule files_per_thread_eq [OF L W])
  have start: "sint (start_index files thread_count (word_of_nat k)) = int (k * ?q)"
    unfolding start_index_def fpt using kq L by (intro sint_of_nat_mult) simp
  have last_iff: "(word_of_nat k + 1 = thread_count) \<longleftrightarrow> Suc k = ?n"
  proof -
    have "(word_of_nat k + 1 :: c_int) = word_of_nat (Suc k)" by simp
    moreover have "thread_count = word_of_nat ?n" by (rule thread_count_of_nat [OF W])
    moreover have "(word_of_nat (Suc k) :: c_int) = word_of_nat ?n \<longleftrightarrow> Suc k = ?n"
    proof
      assume "(word_of_nat (Suc k) :: c_int) = word_of_nat ?n"
      then have "sint (word_of_nat (Suc k) :: c_int) = sint (word_of_nat ?n :: c_int)" by simp
      moreover have "Suc k < 2 ^ 31" using k n31 by simp
      ultimately show "Suc k = ?n"
        using n31 by (simp only: sint_line_number)
    qed simp
    ultimately show ?thesis by metis
  qed
  have "end": "sint (end_index files thread_count (word_of_nat k)) =
      int (if Suc k = ?n then ?L else Suc k * ?q)"
  proof (cases "Suc k = ?n")
    case True
    then have "end_index files thread_count (word_of_nat k) = word_of_nat ?L"
      unfolding end_index_def last_iff by (simp add: vector_size_def ucast_of_nat_narrow)
    with True L show ?thesis by (simp add: sint_line_number del: of_nat_Suc)
  next
    case False
    then have "end_index files thread_count (word_of_nat k) =
        word_of_nat (Suc k) * word_of_nat ?q"
      unfolding end_index_def last_iff fpt by (simp add: add.commute)
    moreover have "Suc k * ?q < 2 ^ 31" using skq L by simp
    ultimately show ?thesis using False
      by (simp only: sint_of_nat_mult if_False)
  qed
  show ?thesis
  proof (cases "Suc k = ?n")
    case True
    with "end" have e: "sint (end_index files thread_count (word_of_nat k)) = int ?L"
      by simp
    have "vector_from_range files (start_index files thread_count (word_of_nat k))
        (end_index files thread_count (word_of_nat k)) =
      Inr (take (?L - k * ?q) (drop (k * ?q) files))"
      by (rule vector_from_range_eq [OF start e kq order_refl])
    with True show ?thesis by (simp add: task_files_def)
  next
    case False
    with "end" have e: "sint (end_index files thread_count (word_of_nat k)) = int (Suc k * ?q)"
      by simp
    have le: "k * ?q \<le> Suc k * ?q" by simp
    have "vector_from_range files (start_index files thread_count (word_of_nat k))
        (end_index files thread_count (word_of_nat k)) =
      Inr (take (Suc k * ?q - k * ?q) (drop (k * ?q) files))"
      by (rule vector_from_range_eq [OF start e le skq])
    moreover have "Suc k * ?q - k * ?q = ?q" by simp
    ultimately show ?thesis using False by (simp add: task_files_def del: mult_Suc)
  qed
qed

lemma concat_slices:
  "concat (map (\<lambda>k. take q (drop (k * q) xs)) [0..<m]) = take (m * q) xs"
proof (induction m)
  case 0
  then show ?case by simp
next
  case (Suc m)
  have "take (m * q) xs @ take q (drop (m * q) xs) = take (m * q + q) xs"
    by (simp add: take_add)
  with Suc show ?case by (simp add: add.commute)
qed

lemma concat_expected_partitions:
  assumes "0 < n"
  shows "concat (map (expected_partition files n) [0..<n]) = files"
proof -
  let ?q = "length files div n"
  from assms obtain m where n: "n = Suc m" by (cases n) auto
  have "map (expected_partition files n) [0..<m] = map (\<lambda>k. take ?q (drop (k * ?q) files)) [0..<m]"
    by (rule map_cong [OF refl]) (simp add: expected_partition_def n)
  then have "concat (map (expected_partition files n) [0..<m]) = take (m * ?q) files"
    by (simp only: concat_slices)
  moreover have "expected_partition files n m = drop (m * ?q) files"
    by (simp add: expected_partition_def n)
  ultimately show ?thesis by (simp add: n)
qed


lemma file_results_in_order:
  "file_results fs t s p =
     (case ifstream fs p of
        None \<Rightarrow> []
      | Some content \<Rightarrow>
          map (\<lambda>i. (t, p, word_of_nat (Suc i), getlines content ! i))
            (filter (\<lambda>i. \<exists>u v. getlines content ! i = u @ s @ v)
              [0..<length (getlines content)]))"
  by (simp add: file_results_def matches_from_substring split: option.split)

lemma records_in_order_eq:
  "records_in_order fs t s files = concat (map (file_results fs t s) files)"
  unfolding records_in_order_def file_results_in_order [abs_def] ..

lemma searchFilesForString_in_order:
  "fst (searchFilesForString fs t s files) =
     (if records_in_order fs t s files = [] then [(t, [], 0, [])]
      else records_in_order fs t s files)"
  by (simp add: searchFilesForString_eq records_in_order_eq)

lemma launch_tasks_None:
  assumes "launch_tasks fs tids s files W indices futures = (None, result)"
  shows "\<exists>parts. map (task_files files W) indices = map Inr parts \<and>
           result = futures @ map (\<lambda>(i, part). searchFilesForString fs (tids i) s part)
                                (zip indices parts)"
  using assms
proof (induction indices arbitrary: futures)
  case Nil
  then show ?case by simp
next
  case (Cons i indices)
  show ?case
  proof (cases "task_files files W i")
    case (Inl e)
    with Cons.prems show ?thesis by simp
  next
    case (Inr part)
    with Cons.prems have "launch_tasks fs tids s files W indices
        (futures @ [searchFilesForString fs (tids i) s part]) = (None, result)"
      by simp
    from Cons.IH [OF this] obtain parts where
      p: "map (task_files files W) indices = map Inr parts" and
      r: "result = (futures @ [searchFilesForString fs (tids i) s part]) @
            map (\<lambda>(i, part). searchFilesForString fs (tids i) s part) (zip indices parts)"
      by blast
    from p r Inr have "map (task_files files W) (i # indices) = map Inr (part # parts) \<and>
        result = futures @ map (\<lambda>(i, part). searchFilesForString fs (tids i) s part)
                   (zip (i # indices) (part # parts))"
      by simp
    then show ?thesis by blast
  qed
qed

lemma launch_tasks_Inr:
  assumes "map (task_files files W) indices = map Inr parts"
  shows "launch_tasks fs tids s files W indices futures =
     (None, futures @ map (\<lambda>(i, part). searchFilesForString fs (tids i) s part)
                        (zip indices parts))"
  using assms
proof (induction indices arbitrary: futures parts)
  case Nil
  then show ?case by simp
next
  case (Cons i indices)
  then obtain part rest where parts: "parts = part # rest" by (cases parts) auto
  with Cons.prems have "task_files files W i = Inr part"
    and "map (task_files files W) indices = map Inr rest"
    by simp_all
  with Cons.IH [of rest] parts show ?case by simp
qed

lemma launch_tasks_futures:
  assumes "\<forall>f \<in> set futures. Q f"
    and "\<And>t part. Q (searchFilesForString fs t s part)"
  shows "\<forall>f \<in> set (snd (launch_tasks fs tids s files W indices futures)). Q f"
  using assms(1)
proof (induction indices arbitrary: futures)
  case Nil
  then show ?case by simp
next
  case (Cons i indices)
  show ?case
  proof (cases "task_files files W i")
    case (Inl e)
    with Cons.prems show ?thesis by simp
  next
    case (Inr part)
    have "\<forall>f \<in> set (futures @ [searchFilesForString fs (tids i) s part]). Q f"
      using Cons.prems assms(2) by simp
    from Cons.IH [OF this] Inr show ?thesis by simp
  qed
qed

lemma zip_upt_map:
  "map f (zip [0..<length parts] parts) = map (\<lambda>k. f (k, parts ! k)) [0..<length parts]"
  by (rule nth_equalityI) simp_all


lemma searchDirectoryForString_Inr:
  assumes "searchDirectoryForString fs tids s root W = (Inr (records, file_count), effects)"
  shows "\<exists>files parts.
      recursive_files fs root = Inr files \<and>
      map (task_files files W) [0..<nat (sint W)] = map Inr parts \<and>
      records = concat (map (\<lambda>k. fst (searchFilesForString fs (tids k) s (parts ! k)))
                         [0..<length parts]) \<and>
      effects = map (\<lambda>k. snd (searchFilesForString fs (tids k) s (parts ! k)))
                  [0..<length parts] \<and>
      file_count = ucast (vector_size files)"
proof (cases "recursive_files fs root")
  case (Inl e)
  with assms show ?thesis by (simp add: searchDirectoryForString_def)
next
  case (Inr files)
  show ?thesis
  proof (cases "W = 0")
    case True
    with assms Inr show ?thesis by (simp add: searchDirectoryForString_def)
  next
    case False
    obtain err futures where l: "launch_tasks fs tids s files W [0..<nat (sint W)] [] = (err, futures)"
      by (cases "launch_tasks fs tids s files W [0..<nat (sint W)] []")
    with assms Inr False have err: "err = None"
      and rec: "records = concat (map fst futures)"
      and eff: "effects = map snd futures"
      and cnt: "file_count = ucast (vector_size files)"
      by (auto simp: searchDirectoryForString_def split: option.splits)
    from launch_tasks_None [OF l [unfolded err]] obtain parts where
      p: "map (task_files files W) [0..<nat (sint W)] = map Inr parts" and
      f: "futures = map (\<lambda>(i, part). searchFilesForString fs (tids i) s part)
            (zip [0..<nat (sint W)] parts)"
      by auto
    from p have "length [0..<nat (sint W)] = length parts"
      by (metis length_map)
    then have len: "nat (sint W) = length parts" by simp
    have f': "futures = map (\<lambda>k. searchFilesForString fs (tids k) s (parts ! k)) [0..<length parts]"
      unfolding f len zip_upt_map by simp
    have "records = concat (map (\<lambda>k. fst (searchFilesForString fs (tids k) s (parts ! k)))
                         [0..<length parts])"
      unfolding rec f' by (simp add: comp_def)
    moreover have "effects = map (\<lambda>k. snd (searchFilesForString fs (tids k) s (parts ! k)))
                  [0..<length parts]"
      unfolding eff f' by (simp add: comp_def)
    ultimately show ?thesis using Inr p cnt by blast
  qed
qed

lemma task_files_expected:
  assumes "length files < 2 ^ 31" and "0 < sint W"
  shows "map (task_files files W) [0..<nat (sint W)] =
     map Inr (map (expected_partition files (nat (sint W))) [0..<nat (sint W)])"
  unfolding map_map comp_def
  by (rule map_cong [OF refl]) (simp add: task_files_eq [OF assms] expected_partition_def)

lemma searchDirectoryForString_returns:
  assumes "recursive_files fs root = Inr files" and "length files < 2 ^ 31" and "0 < sint W"
  shows "searchDirectoryForString fs tids s root W =
     (Inr (concat (map (\<lambda>k. fst (searchFilesForString fs (tids k) s
                                   (expected_partition files (nat (sint W)) k)))
                    [0..<nat (sint W)]),
           word_of_nat (length files)),
      map (\<lambda>k. snd (searchFilesForString fs (tids k) s
                      (expected_partition files (nat (sint W)) k)))
        [0..<nat (sint W)])"
proof -
  let ?n = "nat (sint W)"
  let ?parts = "map (expected_partition files ?n) [0..<?n]"
  from assms(3) have W: "W \<noteq> 0" by auto
  have z: "zip [0..<?n] ?parts = map (\<lambda>k. (k, expected_partition files ?n k)) [0..<?n]"
    by (simp add: zip_map2 zip_same_conv_map)
  have "launch_tasks fs tids s files W [0..<?n] [] =
      (None, map (\<lambda>k. searchFilesForString fs (tids k) s (expected_partition files ?n k))
               [0..<?n])"
    unfolding launch_tasks_Inr [OF task_files_expected [OF assms(2,3)]] z
    by (simp add: comp_def)
  then show ?thesis
    using assms(1) W
    by (simp add: searchDirectoryForString_def comp_def vector_size_def ucast_of_nat_narrow)
qed

lemma zero_thread_count_traps:
  "recursive_files fs root = Inr files \<Longrightarrow>
   searchDirectoryForString fs tids s root 0 = (Inl division_by_zero, [])"
  by (simp add: searchDirectoryForString_def)

lemma example_run:
  "searchDirectoryForString example_fs (\<lambda>i. 100 + i) ''foo'' ''root'' 2 =
     (Inr ([(100, ''root/a.txt'', 1, ''foo''), (101, ''root/sub/b.txt'', 2, ''foo again'')], 3),
      [[OpenForReading ''root/a.txt''],
       [OpenForReading ''root/sub/b.txt'', OpenForReading ''root/locked'',
        WriteStderr (open_error_message ''root/locked'')]])"
  by (simp add: searchDirectoryForString_def recursive_files_def example_fs_def path_append_def
      task_files_def vector_from_range_def start_index_def end_index_def files_per_thread_def
      vector_size_def upt_rec searchFilesForString_eq file_results_def file_effects_def
      ifstream_def getlines_code newline_def string_find_def)

lemma file_results_member:
  assumes "ifstream fs q = Some content" and "i < length (getlines content)"
    and "\<exists>u v. getlines content ! i = u @ s @ v"
  shows "(t, q, word_of_nat (Suc i), getlines content ! i) \<in> set (file_results fs t s q)"
proof -
  from assms(2,3) have "i \<in> set (filter (\<lambda>i. \<exists>u v. getlines content ! i = u @ s @ v)
      [0..<length (getlines content)])"
    by simp
  then have "(t, q, word_of_nat (Suc i), getlines content ! i) \<in>
      (\<lambda>i. (t, q, word_of_nat (Suc i), getlines content ! i)) `
        set (filter (\<lambda>i. \<exists>u v. getlines content ! i = u @ s @ v)
          [0..<length (getlines content)])"
    by (rule imageI)
  then show ?thesis
    by (simp only: file_results_in_order assms(1) option.case set_map)
qed

lemma searchFilesForString_member:
  assumes "q \<in> set part" and "ifstream fs q = Some content"
    and "i < length (getlines content)" and "\<exists>u v. getlines content ! i = u @ s @ v"
  shows "(t, q, word_of_nat (Suc i), getlines content ! i) \<in>
           set (fst (searchFilesForString fs t s part))"
proof -
  have "(t, q, word_of_nat (Suc i), getlines content ! i) \<in> set (file_results fs t s q)"
    by (rule file_results_member [OF assms(2-4)])
  with assms(1) have m: "(t, q, word_of_nat (Suc i), getlines content ! i) \<in>
      set (concat (map (file_results fs t s) part))"
    by (simp only: set_concat set_map) blast
  then have "concat (map (file_results fs t s) part) \<noteq> []"
    by (metis empty_iff empty_set)
  with m show ?thesis by (simp only: searchFilesForString_eq fst_conv if_False)
qed

lemma searchFilesForString_reports:
  assumes "q \<in> set part" and "ifstream fs q = None"
  shows "WriteStderr (open_error_message q) \<in> set (snd (searchFilesForString fs t s part))"
proof -
  from assms(2) have "WriteStderr (open_error_message q) \<in> set (file_effects fs q)"
    by (simp add: file_effects_def)
  with assms(1) show ?thesis
    by (simp only: searchFilesForString_eq snd_conv set_concat set_map) blast
qed

lemma records_in_order_skip:
  assumes "ifstream fs p = None"
  shows "records_in_order fs t s (before @ p # after) = records_in_order fs t s (before @ after)"
proof -
  from assms have "file_results fs t s p = []" by (simp add: file_results_def)
  then show ?thesis by (simp add: records_in_order_eq)
qed

lemma in_some_partition:
  assumes "q \<in> set files" and "0 < n"
  shows "\<exists>k < n. q \<in> set (expected_partition files n k)"
proof -
  from assms(1) have "q \<in> set (concat (map (expected_partition files n) [0..<n]))"
    by (simp only: concat_expected_partitions [OF assms(2)])
  then show ?thesis by auto
qed

lemma recursive_files_content:
  "recursive_files (fs\<lparr>file_content := c\<rparr>) directory = recursive_files fs directory"
  by (simp add: recursive_files_def split: option.split node.split)

lemma launch_tasks_exception:
  "fst (launch_tasks fs' tids s files W indices futures') =
     fst (launch_tasks fs tids s files W indices futures)"
proof (induction indices arbitrary: futures futures')
  case Nil
  then show ?case by simp
next
  case (Cons i indices)
  then show ?case by (cases "task_files files W i") simp_all
qed

lemma searchDirectoryForString_exception:
  "(fst (searchDirectoryForString (fs\<lparr>file_content := c\<rparr>) tids s directory W) = Inl e) =
     (fst (searchDirectoryForString fs tids s directory W) = Inl e)"
proof (cases "recursive_files fs directory")
  case (Inl e')
  then show ?thesis by (simp add: searchDirectoryForString_def recursive_files_content)
next
  case (Inr files)
  obtain x futures where
    l: "launch_tasks fs tids s files W [0..<nat (sint W)] [] = (x, futures)"
    by (cases "launch_tasks fs tids s files W [0..<nat (sint W)] []")
  obtain x' futures' where
    l': "launch_tasks (fs\<lparr>file_content := c\<rparr>) tids s files W [0..<nat (sint W)] [] = (x', futures')"
    by (cases "launch_tasks (fs\<lparr>file_content := c\<rparr>) tids s files W [0..<nat (sint W)] []")
  from launch_tasks_exception [of "fs\<lparr>file_content := c\<rparr>" tids s files W "[0..<nat (sint W)]" "[]" fs "[]"]
    l l' have "x' = x" by simp
  with Inr l l' show ?thesis
    by (cases x) (simp_all add: searchDirectoryForString_def recursive_files_content)
qed


lemma searchDirectoryForString_matches:
  assumes "recursive_files fs directory = Inr files" and "length files < 2 ^ 31"
    and "0 < sint W"
  shows "\<exists>records effects.
      searchDirectoryForString fs tids s directory W =
        (Inr (records, word_of_nat (length files)), effects) \<and>
      (\<forall>q \<in> set files. \<forall>content i.
         ifstream fs q = Some content \<and> i < length (getlines content) \<and>
         (\<exists>u v. getlines content ! i = u @ s @ v) \<longrightarrow>
         (\<exists>k < nat (sint W).
            (tids k, q, word_of_nat (Suc i), getlines content ! i) \<in> set records)) \<and>
      (\<forall>q \<in> set files. ifstream fs q = None \<longrightarrow>
         WriteStderr (open_error_message q) \<in> set (concat effects))"
proof -
  let ?n = "nat (sint W)"
  let ?records = "concat (map (\<lambda>k. fst (searchFilesForString fs (tids k) s
      (expected_partition files ?n k))) [0..<?n])"
  let ?effects = "map (\<lambda>k. snd (searchFilesForString fs (tids k) s
      (expected_partition files ?n k))) [0..<?n]"
  from assms(3) have npos: "0 < ?n" by simp
  have run: "searchDirectoryForString fs tids s directory W =
      (Inr (?records, word_of_nat (length files)), ?effects)"
    by (rule searchDirectoryForString_returns [OF assms])
  have found: "\<exists>k < ?n. (tids k, q, word_of_nat (Suc i), getlines content ! i) \<in> set ?records"
    if "q \<in> set files" and "ifstream fs q = Some content" and "i < length (getlines content)"
      and "\<exists>u v. getlines content ! i = u @ s @ v" for q content i
  proof -
    from in_some_partition [OF that(1) npos] obtain k where
      k: "k < ?n" and q: "q \<in> set (expected_partition files ?n k)" by blast
    have "(tids k, q, word_of_nat (Suc i), getlines content ! i) \<in>
        set (fst (searchFilesForString fs (tids k) s (expected_partition files ?n k)))"
      by (rule searchFilesForString_member [OF q that(2-4)])
    with k have "(tids k, q, word_of_nat (Suc i), getlines content ! i) \<in> set ?records"
      by (simp only: set_concat set_map) (use k in auto)
    with k show ?thesis by blast
  qed
  have reported: "WriteStderr (open_error_message q) \<in> set (concat ?effects)"
    if "q \<in> set files" and "ifstream fs q = None" for q
  proof -
    from in_some_partition [OF that(1) npos] obtain k where
      k: "k < ?n" and q: "q \<in> set (expected_partition files ?n k)" by blast
    have "WriteStderr (open_error_message q) \<in>
        set (snd (searchFilesForString fs (tids k) s (expected_partition files ?n k)))"
      by (rule searchFilesForString_reports [OF q that(2)])
    with k show ?thesis
      by (simp only: set_concat set_map) (use k in auto)
  qed
  from run found reported show ?thesis by blast
qed

section \<open>Properties of the effects and of the command line\<close>

lemma file_effects_cases:
  "file_effects fs p =
     (if ifstream fs p = None then [OpenForReading p, WriteStderr (open_error_message p)]
      else [OpenForReading p])"
  by (simp add: file_effects_def split: option.split)

lemma searchFilesForString_effects:
  "snd (searchFilesForString fs t s files) =
     concat (map (\<lambda>p. if ifstream fs p = None
                        then [OpenForReading p, WriteStderr (open_error_message p)]
                        else [OpenForReading p]) files)"
  by (simp add: searchFilesForString_eq file_effects_cases [abs_def])

lemma searchDirectoryForString_effects:
  assumes "\<And>t part. Q (snd (searchFilesForString fs t s part))"
  shows "\<forall>es \<in> set (snd (searchDirectoryForString fs tids s root W)). Q es"
proof (cases "recursive_files fs root")
  case (Inl e)
  then show ?thesis by (simp add: searchDirectoryForString_def)
next
  case (Inr files)
  obtain err futures where
    l: "launch_tasks fs tids s files W [0..<nat (sint W)] [] = (err, futures)"
    by (cases "launch_tasks fs tids s files W [0..<nat (sint W)] []")
  have "\<forall>f \<in> set (snd (launch_tasks fs tids s files W [0..<nat (sint W)] [])). Q (snd f)"
    by (rule launch_tasks_futures) (simp_all add: assms)
  with l have "\<forall>es \<in> set (map snd futures). Q es" by simp
  with Inr l show ?thesis
    by (cases err) (simp_all add: searchDirectoryForString_def)
qed

lemma forget_eqI:
  assumes "directory_path a = directory_path b" and "thread_cnt a = thread_cnt b"
    and "dir_opt a = dir_opt b" and "log_filename_opt a = log_filename_opt b"
    and "result_filename_opt a = result_filename_opt b" and "thread_cnt_opt a = thread_cnt_opt b"
  shows "forget a = forget b"
  by (rule options.equality) (simp_all add: forget_def assms)

lemma forget_eqD:
  assumes "forget a = forget b"
  shows "directory_path a = directory_path b" and "thread_cnt a = thread_cnt b"
    and "dir_opt a = dir_opt b" and "log_filename_opt a = log_filename_opt b"
    and "result_filename_opt a = result_filename_opt b" and "thread_cnt_opt a = thread_cnt_opt b"
proof -
  have "directory_path (forget a) = directory_path (forget b)"
    and "thread_cnt (forget a) = thread_cnt (forget b)"
    and "dir_opt (forget a) = dir_opt (forget b)"
    and "log_filename_opt (forget a) = log_filename_opt (forget b)"
    and "result_filename_opt (forget a) = result_filename_opt (forget b)"
    and "thread_cnt_opt (forget a) = thread_cnt_opt (forget b)"
    by (simp_all only: assms)
  then show "directory_path a = directory_path b" and "thread_cnt a = thread_cnt b"
    and "dir_opt a = dir_opt b" and "log_filename_opt a = log_filename_opt b"
    and "result_filename_opt a = result_filename_opt b" and "thread_cnt_opt a = thread_cnt_opt b"
    by (simp_all add: forget_def)
qed

lemma length_replace_names: "length (replace_names new opts) = length opts"
  by (induction new opts rule: replace_names.induct) simp_all

lemma options_loop_kind:
  "options_loop fs (name # val # rest) st =
     (case option_kind_of name of
        DirOption \<Rightarrow>
          (if dir_opt st
           then Failed (''Error: multiple usage of the starting directory option'' @ [newline])
           else if \<not> exists fs (directory_path st @ [CHR 0x5C] @ val)
           then Failed (''Error: directory does not exist'' @ [newline])
           else options_loop fs rest
                  (st\<lparr>directory_path := directory_path st @ [CHR 0x5C] @ val, dir_opt := True\<rparr>))
      | LogOption \<Rightarrow>
          (if log_filename_opt st
           then Failed (''Error: multiple usage of the log filename option'' @ [newline])
           else if \<not> isValidFilename val
           then Failed (''Error: invalid log filename'' @ [newline])
           else options_loop fs rest (st\<lparr>log_filename := val, log_filename_opt := True\<rparr>))
      | ResultOption \<Rightarrow>
          (if result_filename_opt st
           then Failed (''Error: multiple usage of the result filename option'' @ [newline])
           else if \<not> isValidFilename val
           then Failed (''Error: invalid result filename'' @ [newline])
           else options_loop fs rest (st\<lparr>result_filename := val, result_filename_opt := True\<rparr>))
      | ThreadsOption \<Rightarrow>
          (if thread_cnt_opt st
           then Failed (''Error: multiple usage of the thread count option'' @ [newline])
           else (case stoi val of
                   Inl e \<Rightarrow>
                     if e = invalid_argument
                     then Failed (''Error: invalid thread count'' @ [newline])
                     else Thrown e
                 | Inr n \<Rightarrow> options_loop fs rest (st\<lparr>thread_cnt := n, thread_cnt_opt := True\<rparr>)))
      | UnknownOption \<Rightarrow> Failed (''Wrong usage of the additional parameters.'' @ [newline]))"
  unfolding options_loop.simps option_kind_of_def
  by (simp only: if_distrib [of "case_option_kind _ _ _ _ _"] option_kind.case)

lemma replace_names_kind:
  "replace_names new (name # val # rest) =
     name #
     (if (option_kind_of name = LogOption \<or> option_kind_of name = ResultOption) \<and>
         isValidFilename val
      then new else val) #
     replace_names new rest"
proof -
  have "(option_kind_of name = LogOption \<or> option_kind_of name = ResultOption) \<longleftrightarrow>
      (name = ''-l'' \<or> name = ''--log_file'' \<or> name = ''-r'' \<or> name = ''--result_file'')"
    by (simp add: option_kind_of_def)
  then show ?thesis by (simp only: replace_names.simps)
qed

declare options_loop.simps(1) [simp del]
declare replace_names.simps(1) [simp del]

lemma options_loop_replace_names:
  "isValidFilename new \<Longrightarrow> forget st' = forget st \<Longrightarrow>
    erase (options_loop fs (replace_names new opts) st') = erase (options_loop fs opts st)"
proof (induction new opts arbitrary: st st' rule: replace_names.induct)
  case (1 new name val rest)
  have eq:
    "directory_path st' = directory_path st" "thread_cnt st' = thread_cnt st"
    "dir_opt st' = dir_opt st" "log_filename_opt st' = log_filename_opt st"
    "result_filename_opt st' = result_filename_opt st" "thread_cnt_opt st' = thread_cnt_opt st"
    by (rule forget_eqD [OF "1.prems"(2)])+
  note valid = "1.prems"(1)
  show ?case
  proof (cases "option_kind_of name")
    case DirOption
    have "forget (st'\<lparr>directory_path := directory_path st' @ [CHR 0x5C] @ val, dir_opt := True\<rparr>) =
        forget (st\<lparr>directory_path := directory_path st @ [CHR 0x5C] @ val, dir_opt := True\<rparr>)"
      using eq by (intro forget_eqI) simp_all
    from "1.IH" [OF valid this] DirOption eq show ?thesis
      by (simp add: options_loop_kind replace_names_kind)
  next
    case LogOption
    have "forget (st'\<lparr>log_filename := new, log_filename_opt := True\<rparr>) =
        forget (st\<lparr>log_filename := val, log_filename_opt := True\<rparr>)"
      using eq by (intro forget_eqI) simp_all
    from "1.IH" [OF valid this] LogOption eq valid show ?thesis
      by (simp add: options_loop_kind replace_names_kind)
  next
    case ResultOption
    have "forget (st'\<lparr>result_filename := new, result_filename_opt := True\<rparr>) =
        forget (st\<lparr>result_filename := val, result_filename_opt := True\<rparr>)"
      using eq by (intro forget_eqI) simp_all
    from "1.IH" [OF valid this] ResultOption eq valid show ?thesis
      by (simp add: options_loop_kind replace_names_kind)
  next
    case ThreadsOption
    have "forget (st'\<lparr>thread_cnt := n, thread_cnt_opt := True\<rparr>) =
        forget (st\<lparr>thread_cnt := n, thread_cnt_opt := True\<rparr>)" for n
      using eq by (intro forget_eqI) simp_all
    from "1.IH" [OF valid this] ThreadsOption eq show ?thesis
      by (simp add: options_loop_kind replace_names_kind split: sum.split)
  next
    case UnknownOption
    then show ?thesis by (simp add: options_loop_kind replace_names_kind)
  qed
qed simp_all

lemma main_after_options:
  "main fs tids (program # search_string # opts) =
     (if \<not> (length opts mod 2 = 0) \<or> length opts > 8
      then (Exit 1, [''Error: wrong number of arguments'' @ [newline]], [])
      else after_options fs tids search_string
             (options_loop fs opts (initial_options fs program)))"
proof -
  have "Suc (Suc (length opts)) mod 2 = length opts mod 2"
    by simp
  then show ?thesis
    by (simp add: main_def after_options_def initial_options_def cong: parsed.case_cong)
qed

lemma after_options_erase:
  "after_options fs tids search_string (erase r) = after_options fs tids search_string r"
  by (cases r) (simp_all add: after_options_def forget_def)

lemma main_replace_names:
  assumes "isValidFilename new"
  shows "main fs tids (program # search_string # replace_names new opts) =
         main fs tids (program # search_string # opts)"
proof -
  have "erase (options_loop fs (replace_names new opts) (initial_options fs program)) =
      erase (options_loop fs opts (initial_options fs program))"
    by (rule options_loop_replace_names [OF assms refl])
  then have "after_options fs tids search_string
        (erase (options_loop fs (replace_names new opts) (initial_options fs program))) =
      after_options fs tids search_string
        (erase (options_loop fs opts (initial_options fs program)))"
    by (simp only:)
  then show ?thesis
    by (simp only: main_after_options length_replace_names after_options_erase)
qed

lemma after_options_effects:
  assumes "\<And>t part. Q (snd (searchFilesForString fs t s part))"
  shows "\<forall>es \<in> set (snd (snd (after_options fs tids s r))). Q es"
proof (cases r)
  case (Parsed st)
  obtain res effects where
    sd: "searchDirectoryForString fs tids s (directory_path st) (thread_cnt st) = (res, effects)"
    by (cases "searchDirectoryForString fs tids s (directory_path st) (thread_cnt st)")
  from searchDirectoryForString_effects [of Q fs s tids "directory_path st" "thread_cnt st"] assms sd
  have "\<forall>es \<in> set effects. Q es" by simp
  with Parsed sd show ?thesis
    by (cases res) (simp_all add: after_options_def)
qed (simp_all add: after_options_def)

lemma main_effects:
  assumes "\<And>t s part. Q (snd (searchFilesForString fs t s part))"
  shows "\<forall>es \<in> set (snd (snd (main fs tids argv))). Q es"
proof (cases argv)
  case Nil
  then show ?thesis by (simp add: main_def)
next
  case (Cons program arguments)
  show ?thesis
  proof (cases arguments)
    case Nil
    with Cons show ?thesis by (simp add: main_def)
  next
    case (Cons search_string opts)
    with \<open>argv = program # arguments\<close> after_options_effects [of Q fs search_string] assms
    show ?thesis
      by (simp add: main_after_options)
  qed
qed

lemma main_Exit_0:
  assumes "fst (main fs tids argv) = Exit 0"
  shows "fst (snd (main fs tids argv)) = []"
proof (cases argv)
  case Nil
  with assms show ?thesis by (simp add: main_def)
next
  case (Cons program arguments)
  show ?thesis
  proof (cases arguments)
    case Nil
    with Cons assms show ?thesis by (simp add: main_def)
  next
    case c: (Cons search_string opts)
    with Cons assms show ?thesis
      by (auto simp: main_after_options after_options_def
          split: if_splits parsed.splits prod.splits sum.splits)
  qed
qed

lemma example_main_run:
  "main example_fs (\<lambda>i. 100 + i)
      [''specific_grep.exe'', ''foo'', ''-t'', ''2'', ''-r'', ''out.txt'', ''-l'', ''my log''] =
     (Exit 0, [],
      [[OpenForReading ''root/a.txt''],
       [OpenForReading ''root/sub/b.txt'', OpenForReading ''root/locked'',
        WriteStderr (open_error_message ''root/locked'')]])"
proof -
  have opts: "options_loop example_fs [''-t'', ''2'', ''-r'', ''out.txt'', ''-l'', ''my log'']
      (initial_options example_fs ''specific_grep.exe'') =
    Parsed ((initial_options example_fs ''specific_grep.exe'')
      \<lparr>log_filename := ''my log'', result_filename := ''out.txt'', thread_cnt := 2,
       log_filename_opt := True, result_filename_opt := True, thread_cnt_opt := True\<rparr>)"
    by (simp add: options_loop_kind option_kind_of_def stoi_def isspace_def isdigit_def
        digits_value_def isValidFilename_def is_word_char_def initial_options_def)
  have dir: "directory_path (initial_options example_fs ''specific_grep.exe'') = ''root''"
    by (simp add: initial_options_def example_fs_def)
  show ?thesis
    unfolding main_after_options opts after_options_def
    by (simp add: dir example_run)
qed

lemma main_negative_thread_count:
  "main example_fs (\<lambda>i. 100 + i) [''specific_grep.exe'', ''foo'', ''-t'', ''-1''] =
     (Exit 0, [], [])"
proof -
  have opts: "options_loop example_fs [''-t'', ''-1'']
      (initial_options example_fs ''specific_grep.exe'') =
    Parsed ((initial_options example_fs ''specific_grep.exe'')
      \<lparr>thread_cnt := - 1, thread_cnt_opt := True\<rparr>)"
    by (simp add: options_loop_kind option_kind_of_def stoi_def isspace_def isdigit_def
        digits_value_def initial_options_def)
  have dir: "directory_path (initial_options example_fs ''specific_grep.exe'') = ''root''"
    by (simp add: initial_options_def example_fs_def)
  have "searchDirectoryForString example_fs (\<lambda>i. 100 + i) ''foo'' ''root'' (- 1) =
      (Inr ([], 3), [])"
    by (simp add: searchDirectoryForString_def recursive_files_def example_fs_def
        path_append_def vector_size_def)
  then show ?thesis
    unfolding main_after_options opts after_options_def
    by (simp add: dir)
qed

lemma main_missing_directory:
  assumes "\<not> exists fs (current_path fs @ [CHR 0x5C] @ dir)"
  shows "main fs tids [program, search_string, ''-d'', dir] =
     (Exit 1, [''Error: directory does not exist'' @ [newline]], [])"
  using assms
  by (simp add: main_after_options after_options_def options_loop_kind option_kind_of_def
      initial_options_def)

lemma main_not_a_directory:
  assumes "\<forall>entries. dir_tree fs (current_path fs) \<noteq> Some (Directory entries)"
  shows "main fs tids [program, search_string] = (Uncaught filesystem_error, [], [])"
proof -
  from assms have "recursive_files fs (current_path fs) = Inl filesystem_error"
    by (auto simp: recursive_files_def split: option.splits node.splits)
  then show ?thesis
    by (simp add: main_after_options after_options_def initial_options_def
        searchDirectoryForString_def)
qed

lemma main_zero_thread_count:
  "main example_fs (\<lambda>i. 100 + i) [''specific_grep.exe'', ''foo'', ''-t'', ''0''] =
     (Uncaught division_by_zero, [], [])"
proof -
  have opts: "options_loop example_fs [''-t'', ''0'']
      (initial_options example_fs ''specific_grep.exe'') =
    Parsed ((initial_options example_fs ''specific_grep.exe'')
      \<lparr>thread_cnt := 0, thread_cnt_opt := True\<rparr>)"
    by (simp add: options_loop_kind option_kind_of_def stoi_def isspace_def isdigit_def
        digits_value_def initial_options_def)
  have dir: "directory_path (initial_options example_fs ''specific_grep.exe'') = ''root''"
    by (simp add: initial_options_def example_fs_def)
  have "searchDirectoryForString example_fs (\<lambda>i. 100 + i) ''foo'' ''root'' 0 =
      (Inl division_by_zero, [])"
    by (simp add: searchDirectoryForString_def recursive_files_def example_fs_def
        path_append_def)
  then show ?thesis
    unfolding main_after_options opts after_options_def
    by (simp add: dir)
qed

section \<open>The claims\<close>

subsection \<open>C1: the tuples of a task\<close>




subsection \<open>C2: the partitions\<close>




subsection \<open>C3: thread counts that are not positive\<close>

text \<open>
  Claim C3 asks that a thread count that is not positive is rejected before anything else
  is done. The program's own interface calls for that: \<open>main\<close> checks the values of its
  other options (the directory exists, the filenames are valid), it leaves with
  \<^verbatim>\<open>Error: invalid thread count\<close> when the value of \<^verbatim>\<open>-t\<close> is not a number, and
  \<open>searchDirectoryForString\<close> is documented to return the search results and the number of
  files searched. But no check covers a number that is not positive, and the code breaks
  the claim: with such a count \<open>searchDirectoryForString\<close> enumerates the files first (and
  throws what the enumeration throws); then, with count 0, it divides by zero, and with a
  negative count it starts no task and returns no tuples for the files it counted.
\<close>

theorem nonpositive_thread_count_is_not_rejected:
  assumes "sint W \<le> 0"
  shows "searchDirectoryForString fs tids s root W =
     (case recursive_files fs root of
        Inl e \<Rightarrow> (Inl e, [])
      | Inr files \<Rightarrow>
          if W = 0 then (Inl division_by_zero, [])
          else (Inr ([], word_of_nat (length files)), []))"
proof -
  from assms have "nat (sint W) = 0" by simp
  then show ?thesis
    by (simp add: searchDirectoryForString_def vector_size_def ucast_of_nat_narrow
        split: sum.split)
qed

text \<open>
  The inputs at which the code breaks the claim, on the example directory: thread counts
  \<open>0\<close> and \<open>-1\<close> given to \<open>searchDirectoryForString\<close>, a directory that does not exist
  (the error is the enumeration's, so the enumeration comes first), and the command lines
  \<^verbatim>\<open>-t 0\<close>, which ends in the trap of the division, and \<^verbatim>\<open>-t -1\<close>, which ends with
  status 0 after scanning nothing.
\<close>

theorem nonpositive_thread_count_failing_inputs:
  "searchDirectoryForString example_fs (\<lambda>i. 100 + i) ''foo'' ''root'' 0 =
     (Inl division_by_zero, []) \<and>
   searchDirectoryForString example_fs (\<lambda>i. 100 + i) ''foo'' ''root'' (- 1) =
     (Inr ([], 3), []) \<and>
   searchDirectoryForString example_fs (\<lambda>i. 100 + i) ''foo'' ''nowhere'' 0 =
     (Inl filesystem_error, []) \<and>
   main example_fs (\<lambda>i. 100 + i) [''specific_grep.exe'', ''foo'', ''-t'', ''0''] =
     (Uncaught division_by_zero, [], []) \<and>
   main example_fs (\<lambda>i. 100 + i) [''specific_grep.exe'', ''foo'', ''-t'', ''-1''] =
     (Exit 0, [], [])"
proof -
  have zero: "sint (0 :: c_int) \<le> 0" and minus: "sint (- 1 :: c_int) \<le> 0" by simp_all
  have files: "recursive_files example_fs ''root'' =
      Inr [''root/a.txt'', ''root/sub/b.txt'', ''root/locked'']"
    by (simp add: recursive_files_def example_fs_def path_append_def)
  have nowhere: "recursive_files example_fs ''nowhere'' = Inl filesystem_error"
    by (simp add: recursive_files_def example_fs_def)
  have "searchDirectoryForString example_fs (\<lambda>i. 100 + i) ''foo'' ''root'' 0 =
     (Inl division_by_zero, [])"
    using nonpositive_thread_count_is_not_rejected [OF zero, of example_fs _ _ "''root''"] files
    by simp
  moreover have "searchDirectoryForString example_fs (\<lambda>i. 100 + i) ''foo'' ''root'' (- 1) =
     (Inr ([], 3), [])"
    using nonpositive_thread_count_is_not_rejected [OF minus, of example_fs _ _ "''root''"] files
    by simp
  moreover have "searchDirectoryForString example_fs (\<lambda>i. 100 + i) ''foo'' ''nowhere'' 0 =
     (Inl filesystem_error, [])"
    using nonpositive_thread_count_is_not_rejected [OF zero, of example_fs _ _ "''nowhere''"] nowhere
    by simp
  ultimately show ?thesis
    using main_zero_thread_count main_negative_thread_count by blast
qed

subsection \<open>C4: the order of the tuples\<close>

text \<open>
  Claim C4. Whenever \<open>searchDirectoryForString\<close> returns a pair, the tasks
  \<open>0, \<dots>, W - 1\<close> were given the subsets \<open>parts\<close> of the enumerated files, and the tuples
  returned are what task 0 returned, then what task 1 returned, and so on. What a task
  returns is \<open>records_in_order\<close> of its subset, that is, its tuples file by file in the
  order of the subset and line by line within a file (or its single tuple without a path
  when there is none). By \<open>searchDirectoryForString_returns\<close> a pair is returned whenever the
  enumeration succeeds with fewer than \<open>2 ^ 31\<close> files and the thread count is positive.
\<close>

theorem records_in_worker_order:
  assumes "searchDirectoryForString fs tids s root W = (Inr (records, file_count), effects)"
  shows "\<exists>files parts.
      recursive_files fs root = Inr files \<and>
      map (task_files files W) [0..<nat (sint W)] = map Inr parts \<and>
      records = concat (map (\<lambda>k. fst (searchFilesForString fs (tids k) s (parts ! k)))
                         [0..<length parts]) \<and>
      (\<forall>k. fst (searchFilesForString fs (tids k) s (parts ! k)) =
         (if records_in_order fs (tids k) s (parts ! k) = [] then [(tids k, [], 0, [])]
          else records_in_order fs (tids k) s (parts ! k)))"
proof -
  from searchDirectoryForString_Inr [OF assms] obtain files parts where
    "recursive_files fs root = Inr files"
    "map (task_files files W) [0..<nat (sint W)] = map Inr parts"
    "records = concat (map (\<lambda>k. fst (searchFilesForString fs (tids k) s (parts ! k)))
                         [0..<length parts])"
    by blast
  then show ?thesis
    using searchFilesForString_in_order by blast
qed

theorem records_in_worker_order_witness:
  "\<exists>files parts.
      recursive_files example_fs ''root'' = Inr files \<and>
      map (task_files files 2) [0..<nat (sint (2 :: c_int))] = map Inr parts \<and>
      [(100, ''root/a.txt'', 1, ''foo''), (101, ''root/sub/b.txt'', 2, ''foo again'')] =
        concat (map (\<lambda>k. fst (searchFilesForString example_fs (100 + k) ''foo'' (parts ! k)))
                         [0..<length parts]) \<and>
      (\<forall>k. fst (searchFilesForString example_fs (100 + k) ''foo'' (parts ! k)) =
         (if records_in_order example_fs (100 + k) ''foo'' (parts ! k) = []
          then [(100 + k, [], 0, [])]
          else records_in_order example_fs (100 + k) ''foo'' (parts ! k)))"
  by (rule records_in_worker_order [OF example_run])

subsection \<open>C5: files that cannot be opened\<close>

text \<open>
  Claim C5. Let \<open>p\<close> be a file of a partition that cannot be opened. Then
  \<^item> the task returns exactly the tuples of the other files of the partition, in their
    order (\<open>records_in_order\<close> of the partition without \<open>p\<close>, or the single tuple without a
    path when there is none);
  \<^item> so for every other file that can be opened, the tuple of each of its lines that holds
    the search string is in what the task returns;
  \<^item> the effects of the task are those of the files before \<open>p\<close>, then the attempt to open
    \<open>p\<close> and the line about it on \<^verbatim>\<open>std::cerr\<close>, then those of the files after \<open>p\<close>: the
    scan goes on;
  \<^item> whether \<open>searchDirectoryForString\<close> throws, and what, does not depend on which files can
    be opened;
  \<^item> and when the enumeration succeeds with fewer than \<open>2 ^ 31\<close> files and the thread count
    is positive, \<open>searchDirectoryForString\<close> returns a pair whose tuples include, for every
    enumerated file that can be opened, the tuple of each line that holds the search
    string, made by one of the tasks, while every file that cannot be opened has its line
    on \<^verbatim>\<open>std::cerr\<close>.
\<close>

theorem unreadable_file_is_skipped:
  assumes "ifstream fs p = None"
  shows
   "fst (searchFilesForString fs t s (before @ p # after)) =
      (if records_in_order fs t s (before @ after) = [] then [(t, [], 0, [])]
       else records_in_order fs t s (before @ after)) \<and>
    (\<forall>q \<in> set (before @ after). \<forall>content i.
       ifstream fs q = Some content \<and> i < length (getlines content) \<and>
       (\<exists>u v. getlines content ! i = u @ s @ v) \<longrightarrow>
       (t, q, word_of_nat (Suc i), getlines content ! i) \<in>
         set (fst (searchFilesForString fs t s (before @ p # after)))) \<and>
    snd (searchFilesForString fs t s (before @ p # after)) =
      concat (map (\<lambda>q.
        if ifstream fs q = None
        then [OpenForReading q,
              WriteStderr (''Error: could not open file '' @ q @
                '' due to permission issues.'' @ [newline])]
        else [OpenForReading q]) before) @
      [OpenForReading p,
       WriteStderr (''Error: could not open file '' @ p @
         '' due to permission issues.'' @ [newline])] @
      concat (map (\<lambda>q.
        if ifstream fs q = None
        then [OpenForReading q,
              WriteStderr (''Error: could not open file '' @ q @
                '' due to permission issues.'' @ [newline])]
        else [OpenForReading q]) after) \<and>
    (\<forall>c e. (fst (searchDirectoryForString (fs\<lparr>file_content := c\<rparr>) tids s directory W) = Inl e) =
            (fst (searchDirectoryForString fs tids s directory W) = Inl e)) \<and>
    (recursive_files fs directory = Inr files \<and> length files < 2 ^ 31 \<and> 0 < sint W \<longrightarrow>
       (\<exists>records effects.
          searchDirectoryForString fs tids s directory W =
            (Inr (records, word_of_nat (length files)), effects) \<and>
          (\<forall>q \<in> set files. \<forall>content i.
             ifstream fs q = Some content \<and> i < length (getlines content) \<and>
             (\<exists>u v. getlines content ! i = u @ s @ v) \<longrightarrow>
             (\<exists>k < nat (sint W).
                (tids k, q, word_of_nat (Suc i), getlines content ! i) \<in> set records)) \<and>
          (\<forall>q \<in> set files. ifstream fs q = None \<longrightarrow>
             WriteStderr (''Error: could not open file '' @ q @
               '' due to permission issues.'' @ [newline]) \<in> set (concat effects))))"
proof (intro conjI)
  show "fst (searchFilesForString fs t s (before @ p # after)) =
      (if records_in_order fs t s (before @ after) = [] then [(t, [], 0, [])]
       else records_in_order fs t s (before @ after))"
    by (simp only: searchFilesForString_in_order records_in_order_skip [OF assms])
  show "\<forall>q \<in> set (before @ after). \<forall>content i.
       ifstream fs q = Some content \<and> i < length (getlines content) \<and>
       (\<exists>u v. getlines content ! i = u @ s @ v) \<longrightarrow>
       (t, q, word_of_nat (Suc i), getlines content ! i) \<in>
         set (fst (searchFilesForString fs t s (before @ p # after)))"
  proof (intro ballI allI impI)
    fix q content i
    assume q: "q \<in> set (before @ after)"
      and m: "ifstream fs q = Some content \<and> i < length (getlines content) \<and>
        (\<exists>u v. getlines content ! i = u @ s @ v)"
    from q have "q \<in> set (before @ p # after)" by auto
    with m show "(t, q, word_of_nat (Suc i), getlines content ! i) \<in>
        set (fst (searchFilesForString fs t s (before @ p # after)))"
      by (intro searchFilesForString_member) blast+
  qed
  show "snd (searchFilesForString fs t s (before @ p # after)) =
      concat (map (\<lambda>q.
        if ifstream fs q = None
        then [OpenForReading q,
              WriteStderr (''Error: could not open file '' @ q @
                '' due to permission issues.'' @ [newline])]
        else [OpenForReading q]) before) @
      [OpenForReading p,
       WriteStderr (''Error: could not open file '' @ p @
         '' due to permission issues.'' @ [newline])] @
      concat (map (\<lambda>q.
        if ifstream fs q = None
        then [OpenForReading q,
              WriteStderr (''Error: could not open file '' @ q @
                '' due to permission issues.'' @ [newline])]
        else [OpenForReading q]) after)"
  proof -
    have "snd (searchFilesForString fs t s (before @ p # after)) =
        concat (map (\<lambda>q.
          if ifstream fs q = None
          then [OpenForReading q, WriteStderr (open_error_message q)]
          else [OpenForReading q]) before) @
        [OpenForReading p, WriteStderr (open_error_message p)] @
        concat (map (\<lambda>q.
          if ifstream fs q = None
          then [OpenForReading q, WriteStderr (open_error_message q)]
          else [OpenForReading q]) after)"
      using assms by (simp add: searchFilesForString_effects)
    then show ?thesis unfolding open_error_message_def .
  qed
  show "\<forall>c e. (fst (searchDirectoryForString (fs\<lparr>file_content := c\<rparr>) tids s directory W) = Inl e) =
            (fst (searchDirectoryForString fs tids s directory W) = Inl e)"
    by (intro allI) (rule searchDirectoryForString_exception)
  show "recursive_files fs directory = Inr files \<and> length files < 2 ^ 31 \<and> 0 < sint W \<longrightarrow>
       (\<exists>records effects.
          searchDirectoryForString fs tids s directory W =
            (Inr (records, word_of_nat (length files)), effects) \<and>
          (\<forall>q \<in> set files. \<forall>content i.
             ifstream fs q = Some content \<and> i < length (getlines content) \<and>
             (\<exists>u v. getlines content ! i = u @ s @ v) \<longrightarrow>
             (\<exists>k < nat (sint W).
                (tids k, q, word_of_nat (Suc i), getlines content ! i) \<in> set records)) \<and>
          (\<forall>q \<in> set files. ifstream fs q = None \<longrightarrow>
             WriteStderr (''Error: could not open file '' @ q @
               '' due to permission issues.'' @ [newline]) \<in> set (concat effects)))"
  proof
    assume "recursive_files fs directory = Inr files \<and> length files < 2 ^ 31 \<and> 0 < sint W"
    then have a: "recursive_files fs directory = Inr files" "length files < 2 ^ 31" "0 < sint W"
      by simp_all
    from searchDirectoryForString_matches [OF a, of tids s]
    show "\<exists>records effects.
          searchDirectoryForString fs tids s directory W =
            (Inr (records, word_of_nat (length files)), effects) \<and>
          (\<forall>q \<in> set files. \<forall>content i.
             ifstream fs q = Some content \<and> i < length (getlines content) \<and>
             (\<exists>u v. getlines content ! i = u @ s @ v) \<longrightarrow>
             (\<exists>k < nat (sint W).
                (tids k, q, word_of_nat (Suc i), getlines content ! i) \<in> set records)) \<and>
          (\<forall>q \<in> set files. ifstream fs q = None \<longrightarrow>
             WriteStderr (''Error: could not open file '' @ q @
               '' due to permission issues.'' @ [newline]) \<in> set (concat effects))"
      by (simp only: open_error_message_def)
  qed
qed

theorem unreadable_file_is_skipped_witness:
  "ifstream example_fs ''root/locked'' = None \<and>
   fst (searchFilesForString example_fs 7 ''foo'' [''root/a.txt'', ''root/locked'', ''root/sub/b.txt'']) =
     [(7, ''root/a.txt'', 1, ''foo''), (7, ''root/sub/b.txt'', 2, ''foo again'')] \<and>
   (7, ''root/sub/b.txt'', 2, ''foo again'') \<in>
     set (fst (searchFilesForString example_fs 7 ''foo''
       [''root/a.txt'', ''root/locked'', ''root/sub/b.txt''])) \<and>
   snd (searchFilesForString example_fs 7 ''foo'' [''root/a.txt'', ''root/locked'', ''root/sub/b.txt'']) =
     [OpenForReading ''root/a.txt'', OpenForReading ''root/locked'',
      WriteStderr (''Error: could not open file root/locked due to permission issues.'' @ [newline]),
      OpenForReading ''root/sub/b.txt''] \<and>
   (\<exists>records effects.
      searchDirectoryForString example_fs (\<lambda>i. 100 + i) ''foo'' ''root'' 2 =
        (Inr (records, 3), effects) \<and>
      (\<exists>k < 2. (100 + k, ''root/sub/b.txt'', 2, ''foo again'') \<in> set records) \<and>
      WriteStderr (''Error: could not open file root/locked due to permission issues.'' @ [newline])
        \<in> set (concat effects))"
proof -
  let ?files = "[''root/a.txt'', ''root/sub/b.txt'', ''root/locked'']"
  have h: "ifstream example_fs ''root/locked'' = None"
    by (simp add: ifstream_def example_fs_def)
  note T = unreadable_file_is_skipped [OF h, of 7 "''foo''" "[''root/a.txt'']" "[''root/sub/b.txt'']"
      "\<lambda>i. 100 + i" "''root''" 2 ?files]
  have r: "records_in_order example_fs 7 ''foo'' ([''root/a.txt''] @ [''root/sub/b.txt'']) =
      [(7, ''root/a.txt'', 1, ''foo''), (7, ''root/sub/b.txt'', 2, ''foo again'')]"
    by (simp add: records_in_order_eq file_results_def ifstream_def example_fs_def
        getlines_code newline_def string_find_def)
  have b: "ifstream example_fs ''root/sub/b.txt'' = Some (''nothing'' @ [newline] @ ''foo again'')"
    by (simp add: ifstream_def example_fs_def)
  have g: "getlines (''nothing'' @ [newline] @ ''foo again'') = [''nothing'', ''foo again'']"
    by (simp add: getlines_code newline_def)
  have "''foo again'' = [] @ ''foo'' @ '' again''" by simp
  then have sub: "\<exists>u v. getlines (''nothing'' @ [newline] @ ''foo again'') ! 1 = u @ ''foo'' @ v"
    unfolding g by (simp only: nth_Cons_0 nth_Cons_Suc One_nat_def) blast
  have i: "1 < length (getlines (''nothing'' @ [newline] @ ''foo again''))"
    unfolding g by simp
  have one: "fst (searchFilesForString example_fs 7 ''foo''
      [''root/a.txt'', ''root/locked'', ''root/sub/b.txt'']) =
     [(7, ''root/a.txt'', 1, ''foo''), (7, ''root/sub/b.txt'', 2, ''foo again'')]"
    using T r by simp
  from T have "\<forall>q \<in> set ([''root/a.txt''] @ [''root/sub/b.txt'']). \<forall>content i.
       ifstream example_fs q = Some content \<and> i < length (getlines content) \<and>
       (\<exists>u v. getlines content ! i = u @ ''foo'' @ v) \<longrightarrow>
       (7, q, word_of_nat (Suc i), getlines content ! i) \<in>
         set (fst (searchFilesForString example_fs 7 ''foo''
           ([''root/a.txt''] @ ''root/locked'' # [''root/sub/b.txt''])))"
    by blast
  then have "ifstream example_fs ''root/sub/b.txt'' = Some (''nothing'' @ [newline] @ ''foo again'') \<and>
       1 < length (getlines (''nothing'' @ [newline] @ ''foo again'')) \<and>
       (\<exists>u v. getlines (''nothing'' @ [newline] @ ''foo again'') ! 1 = u @ ''foo'' @ v) \<longrightarrow>
       (7, ''root/sub/b.txt'', word_of_nat (Suc 1),
        getlines (''nothing'' @ [newline] @ ''foo again'') ! 1) \<in>
         set (fst (searchFilesForString example_fs 7 ''foo''
           ([''root/a.txt''] @ ''root/locked'' # [''root/sub/b.txt''])))"
    by (simp del: of_nat_Suc)
  with b i sub have "(7, ''root/sub/b.txt'', word_of_nat (Suc 1),
        getlines (''nothing'' @ [newline] @ ''foo again'') ! 1) \<in>
         set (fst (searchFilesForString example_fs 7 ''foo''
           ([''root/a.txt''] @ ''root/locked'' # [''root/sub/b.txt''])))"
    by blast
  then have two: "(7, ''root/sub/b.txt'', 2, ''foo again'') \<in>
     set (fst (searchFilesForString example_fs 7 ''foo''
       [''root/a.txt'', ''root/locked'', ''root/sub/b.txt'']))"
    unfolding g by simp
  have three: "snd (searchFilesForString example_fs 7 ''foo''
      [''root/a.txt'', ''root/locked'', ''root/sub/b.txt'']) =
     [OpenForReading ''root/a.txt'', OpenForReading ''root/locked'',
      WriteStderr (''Error: could not open file root/locked due to permission issues.'' @ [newline]),
      OpenForReading ''root/sub/b.txt'']"
    using T by (simp add: ifstream_def example_fs_def)
  have f: "recursive_files example_fs ''root'' = Inr ?files \<and> length ?files < 2 ^ 31 \<and>
      0 < sint (2 :: c_int)"
    by (simp add: recursive_files_def example_fs_def path_append_def)
  with T obtain records effects where
    run: "searchDirectoryForString example_fs (\<lambda>i. 100 + i) ''foo'' ''root'' 2 =
        (Inr (records, word_of_nat (length ?files)), effects)" and
    found: "\<forall>q \<in> set ?files. \<forall>content i.
       ifstream example_fs q = Some content \<and> i < length (getlines content) \<and>
       (\<exists>u v. getlines content ! i = u @ ''foo'' @ v) \<longrightarrow>
       (\<exists>k < nat (sint (2 :: c_int)).
          (100 + k, q, word_of_nat (Suc i), getlines content ! i) \<in> set records)" and
    reported: "\<forall>q \<in> set ?files. ifstream example_fs q = None \<longrightarrow>
       WriteStderr (''Error: could not open file '' @ q @
         '' due to permission issues.'' @ [newline]) \<in> set (concat effects)"
    by blast
  from found have "ifstream example_fs ''root/sub/b.txt'' = Some (''nothing'' @ [newline] @ ''foo again'') \<and>
       1 < length (getlines (''nothing'' @ [newline] @ ''foo again'')) \<and>
       (\<exists>u v. getlines (''nothing'' @ [newline] @ ''foo again'') ! 1 = u @ ''foo'' @ v) \<longrightarrow>
       (\<exists>k < nat (sint (2 :: c_int)).
          (100 + k, ''root/sub/b.txt'', word_of_nat (Suc 1),
           getlines (''nothing'' @ [newline] @ ''foo again'') ! 1) \<in> set records)"
    by (simp del: of_nat_Suc)
  with b i sub have "\<exists>k < nat (sint (2 :: c_int)).
          (100 + k, ''root/sub/b.txt'', word_of_nat (Suc 1),
           getlines (''nothing'' @ [newline] @ ''foo again'') ! 1) \<in> set records"
    by blast
  then have four: "\<exists>k < 2. (100 + k, ''root/sub/b.txt'', 2, ''foo again'') \<in> set records"
    unfolding g by simp
  from reported h have five:
    "WriteStderr (''Error: could not open file root/locked due to permission issues.'' @ [newline])
        \<in> set (concat effects)"
    by simp
  from run have run': "searchDirectoryForString example_fs (\<lambda>i. 100 + i) ''foo'' ''root'' 2 =
        (Inr (records, 3), effects)"
    by simp
  from h one two three run' four five show ?thesis by blast
qed

subsection \<open>C6: the tuple of a task without matches\<close>




subsection \<open>C7: the effects of the core\<close>

text \<open>
  Claim C7, amended. The effects of a task are, file by file in the order of its subset,
  the attempt to open the file for reading and, when that fails, one line about it on
  \<^verbatim>\<open>std::cerr\<close>. So every effect of the tasks that \<open>searchDirectoryForString\<close> starts is the
  opening of a file for reading or the line on \<^verbatim>\<open>std::cerr\<close> for a file that could not be
  opened; no file is opened for writing, and nothing else is printed. (Reading the
  directory tree is the enumeration; it is part of what \<open>recursive_files\<close> returns.)
\<close>

theorem core_effects:
  "snd (searchFilesForString fs t s files) =
     concat (map (\<lambda>p. if ifstream fs p = None
                        then [OpenForReading p, WriteStderr (open_error_message p)]
                        else [OpenForReading p]) files) \<and>
   (\<forall>es \<in> set (snd (searchDirectoryForString fs tids s root W)). \<forall>e \<in> set es.
      (\<exists>p. e = OpenForReading p) \<or>
      (\<exists>p. ifstream fs p = None \<and> e = WriteStderr (open_error_message p)))"
proof
  show "snd (searchFilesForString fs t s files) =
     concat (map (\<lambda>p. if ifstream fs p = None
                        then [OpenForReading p, WriteStderr (open_error_message p)]
                        else [OpenForReading p]) files)"
    by (rule searchFilesForString_effects)
  show "\<forall>es \<in> set (snd (searchDirectoryForString fs tids s root W)). \<forall>e \<in> set es.
      (\<exists>p. e = OpenForReading p) \<or>
      (\<exists>p. ifstream fs p = None \<and> e = WriteStderr (open_error_message p))"
    by (rule searchDirectoryForString_effects) (auto simp: searchFilesForString_effects)
qed

theorem core_effects_witness:
  "snd (searchFilesForString example_fs 7 ''foo'' [''root/a.txt'', ''root/locked'']) =
     [OpenForReading ''root/a.txt'', OpenForReading ''root/locked'',
      WriteStderr (open_error_message ''root/locked'')] \<and>
   OpenForWriting ''result.txt'' \<notin>
     set (concat (snd (searchDirectoryForString example_fs (\<lambda>i. 100 + i) ''foo'' ''root'' 2)))"
proof -
  from core_effects [of example_fs 7 "''foo''" "[''root/a.txt'', ''root/locked'']"]
  have "snd (searchFilesForString example_fs 7 ''foo'' [''root/a.txt'', ''root/locked'']) =
     [OpenForReading ''root/a.txt'', OpenForReading ''root/locked'',
      WriteStderr (open_error_message ''root/locked'')]"
    by (simp add: ifstream_def example_fs_def)
  moreover from core_effects [of example_fs _ "''foo''" _ "\<lambda>i. 100 + i" "''root''" 2]
  have "OpenForWriting ''result.txt'' \<notin>
     set (concat (snd (searchDirectoryForString example_fs (\<lambda>i. 100 + i) ''foo'' ''root'' 2)))"
    by fastforce
  ultimately show ?thesis ..
qed

text \<open>
  Claim C7 as stated, that the core never prints, fails: in the example directory the
  task that is given the file that cannot be opened writes a line to \<^verbatim>\<open>std::cerr\<close>.
\<close>

theorem core_prints_counterexample:
  "snd (searchDirectoryForString example_fs (\<lambda>i. 100 + i) ''foo'' ''root'' 2) =
     [[OpenForReading ''root/a.txt''],
      [OpenForReading ''root/sub/b.txt'', OpenForReading ''root/locked'',
       WriteStderr (open_error_message ''root/locked'')]]"
  by (simp add: example_run)

subsection \<open>C8: a directory that does not exist\<close>

text \<open>
  Claim C8. When the directory path does not exist or is not a directory (or is a
  directory that cannot be opened), the enumeration throws \<^verbatim>\<open>fs::filesystem_error\<close> (the
  specification's \<open>DirectoryNotFound\<close>), and \<open>searchDirectoryForString\<close> throws it on,
  whatever the thread count: no task was started and no pair is returned. In \<open>main\<close>
  nothing catches it, so it ends the program; and a directory given with \<^verbatim>\<open>-d\<close> that does
  not exist makes \<open>main\<close> return 1 with a message before \<open>searchDirectoryForString\<close> is
  called.
\<close>

theorem not_a_directory_throws:
  "((\<forall>entries. dir_tree fs directory \<noteq> Some (Directory entries)) \<longrightarrow>
      recursive_files fs directory = Inl filesystem_error \<and>
      searchDirectoryForString fs tids s directory W = (Inl filesystem_error, [])) \<and>
   ((\<forall>entries. dir_tree fs (current_path fs) \<noteq> Some (Directory entries)) \<longrightarrow>
      main fs tids [program, s] = (Uncaught filesystem_error, [], [])) \<and>
   (\<not> exists fs (current_path fs @ [CHR 0x5C] @ dir) \<longrightarrow>
      main fs tids [program, s, ''-d'', dir] =
        (Exit 1, [''Error: directory does not exist'' @ [newline]], []))"
proof (intro conjI impI)
  assume "\<forall>entries. dir_tree fs directory \<noteq> Some (Directory entries)"
  then show r: "recursive_files fs directory = Inl filesystem_error"
    by (auto simp: recursive_files_def split: option.splits node.splits)
  then show "searchDirectoryForString fs tids s directory W = (Inl filesystem_error, [])"
    by (simp add: searchDirectoryForString_def)
next
  assume "\<forall>entries. dir_tree fs (current_path fs) \<noteq> Some (Directory entries)"
  then show "main fs tids [program, s] = (Uncaught filesystem_error, [], [])"
    by (rule main_not_a_directory)
next
  assume "\<not> exists fs (current_path fs @ [CHR 0x5C] @ dir)"
  then show "main fs tids [program, s, ''-d'', dir] =
      (Exit 1, [''Error: directory does not exist'' @ [newline]], [])"
    by (rule main_missing_directory)
qed

theorem not_a_directory_throws_witness:
  "searchDirectoryForString example_fs (\<lambda>i. 100 + i) ''foo'' ''nowhere'' 2 =
     (Inl filesystem_error, []) \<and>
   searchDirectoryForString example_fs (\<lambda>i. 100 + i) ''foo'' ''root/a.txt'' 2 =
     (Inl filesystem_error, []) \<and>
   main (example_fs\<lparr>current_path := ''nowhere''\<rparr>) (\<lambda>i. 100 + i) [''specific_grep.exe'', ''foo''] =
     (Uncaught filesystem_error, [], []) \<and>
   main example_fs (\<lambda>i. 100 + i) [''specific_grep.exe'', ''foo'', ''-d'', ''missing''] =
     (Exit 1, [''Error: directory does not exist'' @ [newline]], [])"
proof -
  have 1: "\<forall>entries. dir_tree example_fs ''nowhere'' \<noteq> Some (Directory entries)"
    by (simp add: example_fs_def)
  have 2: "\<forall>entries. dir_tree example_fs ''root/a.txt'' \<noteq> Some (Directory entries)"
    by (simp add: example_fs_def)
  have 3: "\<forall>entries. dir_tree (example_fs\<lparr>current_path := ''nowhere''\<rparr>)
      (current_path (example_fs\<lparr>current_path := ''nowhere''\<rparr>)) \<noteq> Some (Directory entries)"
    by (simp add: example_fs_def)
  have 4: "\<not> exists example_fs (current_path example_fs @ [CHR 0x5C] @ ''missing'')"
    by (simp add: exists_def example_fs_def)
  from not_a_directory_throws [of example_fs "''nowhere''" "\<lambda>i. 100 + i" "''foo''" 2] 1
  have a: "searchDirectoryForString example_fs (\<lambda>i. 100 + i) ''foo'' ''nowhere'' 2 =
     (Inl filesystem_error, [])"
    by blast
  from not_a_directory_throws [of example_fs "''root/a.txt''" "\<lambda>i. 100 + i" "''foo''" 2] 2
  have b: "searchDirectoryForString example_fs (\<lambda>i. 100 + i) ''foo'' ''root/a.txt'' 2 =
     (Inl filesystem_error, [])"
    by blast
  from not_a_directory_throws [of "example_fs\<lparr>current_path := ''nowhere''\<rparr>" _ "\<lambda>i. 100 + i"
      "''foo''" _ "''specific_grep.exe''"] 3
  have c: "main (example_fs\<lparr>current_path := ''nowhere''\<rparr>) (\<lambda>i. 100 + i)
      [''specific_grep.exe'', ''foo''] = (Uncaught filesystem_error, [], [])"
    by blast
  from not_a_directory_throws [of example_fs _ "\<lambda>i. 100 + i" "''foo''" _ "''specific_grep.exe''"
      "''missing''"] 4
  have d: "main example_fs (\<lambda>i. 100 + i) [''specific_grep.exe'', ''foo'', ''-d'', ''missing''] =
     (Exit 1, [''Error: directory does not exist'' @ [newline]], [])"
    by blast
  from a b c d show ?thesis by blast
qed

subsection \<open>C9: the empty search string\<close>

text \<open>
  Claim C9. For the empty search string, \<open>searchFilesForString\<close> returns one tuple for
  every line of every file of the partition that can be opened, in file-then-line order:
  \<^verbatim>\<open>find\<close> succeeds on every line. (Only when there is no line at all is the single tuple
  of a task without matches returned.) The lines of a file are \<open>getlines\<close> of its content;
  by \<open>has_lines_iff\<close> these are its lines in the sense of \<open>has_lines\<close>.
\<close>

theorem empty_search_string_matches_every_line:
  "fst (searchFilesForString fs t [] files) =
     (let results = concat (map (\<lambda>p.
        case ifstream fs p of
          None \<Rightarrow> []
        | Some content \<Rightarrow>
            map (\<lambda>i. (t, p, word_of_nat (Suc i), getlines content ! i))
              [0..<length (getlines content)]) files)
      in if results = [] then [(t, [], 0, [])] else results)"
proof -
  have "file_results fs t [] = (\<lambda>p.
        case ifstream fs p of
          None \<Rightarrow> []
        | Some content \<Rightarrow>
            map (\<lambda>i. (t, p, word_of_nat (Suc i), getlines content ! i))
              [0..<length (getlines content)])"
    by (rule ext) (rule file_results_empty_string)
  then show ?thesis
    by (simp add: searchFilesForString_eq Let_def)
qed

theorem empty_search_string_witness:
  "fst (searchFilesForString example_fs 7 [] [''root/a.txt'', ''root/locked'', ''root/sub/b.txt'']) =
     [(7, ''root/a.txt'', 1, ''foo''), (7, ''root/a.txt'', 2, ''bar baz''),
      (7, ''root/sub/b.txt'', 1, ''nothing''), (7, ''root/sub/b.txt'', 2, ''foo again'')]"
  unfolding empty_search_string_matches_every_line
  by (simp add: ifstream_def example_fs_def getlines_code newline_def)

subsection \<open>C10: the result file and the log file\<close>

text \<open>
  Claim C10. \<open>main\<close> checks the filenames given with \<^verbatim>\<open>-l\<close> and \<^verbatim>\<open>-r\<close> and then never uses
  them: replacing every valid log or result filename on the command line by any other
  valid name changes neither how the program ends nor what it writes to \<^verbatim>\<open>std::cerr\<close> nor
  any effect of its tasks. No run opens a file for writing. A run that ends with status 0
  has written nothing to \<^verbatim>\<open>std::cerr\<close> in \<open>main\<close>. And whenever the options are read and
  \<open>searchDirectoryForString\<close> returns a pair, \<open>main\<close> returns 0 whatever that pair holds:
  the pair is not used.
\<close>

theorem result_and_log_files_are_never_used:
  "(isValidFilename new \<longrightarrow>
      main fs tids (program # search_string # replace_names new opts) =
      main fs tids (program # search_string # opts)) \<and>
   (\<forall>es \<in> set (snd (snd (main fs tids argv))). \<forall>e \<in> set es. \<forall>p. e \<noteq> OpenForWriting p) \<and>
   (fst (main fs tids argv) = Exit 0 \<longrightarrow> fst (snd (main fs tids argv)) = []) \<and>
   (length opts mod 2 = 0 \<and> length opts \<le> 8 \<and>
    options_loop fs opts (initial_options fs program) = Parsed st \<and>
    searchDirectoryForString fs tids search_string (directory_path st) (thread_cnt st) =
      (Inr results, effects) \<longrightarrow>
      main fs tids (program # search_string # opts) = (Exit 0, [], effects))"
proof (intro conjI impI)
  assume "length opts mod 2 = 0 \<and> length opts \<le> 8 \<and>
    options_loop fs opts (initial_options fs program) = Parsed st \<and>
    searchDirectoryForString fs tids search_string (directory_path st) (thread_cnt st) =
      (Inr results, effects)"
  then show "main fs tids (program # search_string # opts) = (Exit 0, [], effects)"
    by (simp add: main_after_options after_options_def)
next
  show "main fs tids (program # search_string # replace_names new opts) =
      main fs tids (program # search_string # opts)" if "isValidFilename new"
    using that by (rule main_replace_names)
  show "\<forall>es \<in> set (snd (snd (main fs tids argv))). \<forall>e \<in> set es. \<forall>p. e \<noteq> OpenForWriting p"
    by (rule main_effects) (auto simp: searchFilesForString_effects)
  show "fst (snd (main fs tids argv)) = []" if "fst (main fs tids argv) = Exit 0"
    using that by (rule main_Exit_0)
qed

theorem result_and_log_files_are_never_used_witness:
  "main example_fs (\<lambda>i. 100 + i)
      [''specific_grep.exe'', ''foo'', ''-t'', ''2'', ''-r'', ''x'', ''-l'', ''x''] =
     (Exit 0, [],
      [[OpenForReading ''root/a.txt''],
       [OpenForReading ''root/sub/b.txt'', OpenForReading ''root/locked'',
        WriteStderr (open_error_message ''root/locked'')]])"
proof -
  have v: "isValidFilename ''x''"
    by (simp add: isValidFilename_def is_word_char_def)
  have r: "replace_names ''x'' [''-t'', ''2'', ''-r'', ''out.txt'', ''-l'', ''my log''] =
      [''-t'', ''2'', ''-r'', ''x'', ''-l'', ''x'']"
    by (simp add: replace_names_kind option_kind_of_def isValidFilename_def is_word_char_def)
  from result_and_log_files_are_never_used
    [of "''x''" example_fs "\<lambda>i. 100 + i" "''specific_grep.exe''" "''foo''"
        "[''-t'', ''2'', ''-r'', ''out.txt'', ''-l'', ''my log'']"] v
  have "main example_fs (\<lambda>i. 100 + i)
      (''specific_grep.exe'' # ''foo'' #
        replace_names ''x'' [''-t'', ''2'', ''-r'', ''out.txt'', ''-l'', ''my log'']) =
    main example_fs (\<lambda>i. 100 + i)
      (''specific_grep.exe'' # ''foo'' # [''-t'', ''2'', ''-r'', ''out.txt'', ''-l'', ''my log''])"
    by blast
  then show ?thesis
    unfolding r by (simp only: example_main_run)
qed

end
